(* ===== verification/Prelude.thy ===== *)
theory Prelude
  imports Main "HOL-Library.Finite_Map" "HOL-Library.Char_ord" "HOL-Library.List_Lexorder"
begin

text \<open>
  What every theory of the development shares: Go's \<open>error\<close> values, \<open>time.Time\<close> instants,
  connection handles, the order in which \<open>range\<close> walks a Go map, and the generic lemmas on
  finite maps and lists that the component proofs use.

  Go strings and byte slices are Isabelle \<open>string\<close>s: a \<open>char\<close> is one byte, so
  \<open>length\<close> is Go's \<open>len\<close>. A Go \<open>map[K]V\<close> is a finite map \<open>(K, V) fmap\<close>: indexing
  is \<open>fmlookup\<close>, assignment \<open>fmupd\<close>, \<open>delete\<close> is \<open>fmdrop\<close> and \<open>len\<close> is
  \<open>fcard (fmdom m)\<close>.
\<close>

section \<open>Errors\<close>

text \<open>
  A Go error is known by its text and by the error it wraps: \<open>Err\<close> is \<open>errors.New\<close> (or
  \<open>fmt.Errorf\<close> without \<open>%w\<close>), \<open>Wrap p e\<close> is \<open>fmt.Errorf("p: %w", e)\<close>; \<open>EOF\<close> and
  \<open>UnexpectedEOF\<close> are the sentinels of package io.
\<close>

datatype go_error = Err string | Wrap string go_error | EOF | UnexpectedEOF

fun error_text :: "go_error \<Rightarrow> string" where
  "error_text (Err s) = s"
| "error_text (Wrap p e) = p @ '': '' @ error_text e"
| "error_text EOF = ''EOF''"
| "error_text UnexpectedEOF = ''unexpected EOF''"

section \<open>Instants and connections\<close>

text \<open>
  A \<open>time.Time\<close> is the number of nanoseconds on the monotonic clock; a
  \<open>time.Duration\<close> is an \<open>int\<close> number of nanoseconds. \<open>t.Before(u)\<close> is \<open>t < u\<close>.
\<close>

datatype time = Time (ns: int)

instantiation time :: linorder
begin

definition less_eq_time :: "time \<Rightarrow> time \<Rightarrow> bool" where
  "less_eq_time a b \<longleftrightarrow> ns a \<le> ns b"

definition less_time :: "time \<Rightarrow> time \<Rightarrow> bool" where
  "less_time a b \<longleftrightarrow> ns a < ns b"

instance
  by standard (auto simp: less_eq_time_def less_time_def time.expand)

end

definition time_add :: "time \<Rightarrow> int \<Rightarrow> time" where
  "time_add t d = Time (ns t + d)"

definition time_sub :: "time \<Rightarrow> time \<Rightarrow> int" where
  "time_sub t u = ns t - ns u"

lemmas time_simps = less_eq_time_def less_time_def time_add_def time_sub_def

text \<open>A \<open>net.Conn\<close> is a handle; the interface value \<open>nil\<close> is \<open>None\<close> where the code tests it.\<close>

type_synonym conn = nat

section \<open>Iteration order of Go maps\<close>

text \<open>
  \<open>for k := range m\<close> visits every key once, in an order the language leaves open. The
  operations that range over a map take the order as a parameter; the theorems hold for
  every order that lists each key exactly once.
\<close>

definition iteration_order :: "('k fset \<Rightarrow> 'k list) \<Rightarrow> bool" where
  "iteration_order ord \<longleftrightarrow> (\<forall>S. distinct (ord S) \<and> fset_of_list (ord S) = S)"

lemma iteration_order_distinct: "iteration_order ord \<Longrightarrow> distinct (ord S)"
  by (simp add: iteration_order_def)

lemma iteration_order_set: "iteration_order ord \<Longrightarrow> set (ord S) = fset S"
  by (metis iteration_order_def fset_of_list.rep_eq)

lemma iteration_order_length: "iteration_order ord \<Longrightarrow> length (ord S) = fcard S"
  by (simp add: fcard.rep_eq iteration_order_def distinct_card [symmetric] iteration_order_set)

lemma iteration_order_sorted: "iteration_order sorted_list_of_fset"
  by (simp add: iteration_order_def sorted_list_of_fset.rep_eq fset_inject [symmetric]
      fset_of_list.rep_eq)

section \<open>Finite maps\<close>

lemma fmdom_lookup: "k |\<in>| fmdom m \<longleftrightarrow> fmlookup m k \<noteq> None"
  by (auto simp: fmlookup_dom_iff)

lemma fcard_fmupd:
  "fcard (fmdom (fmupd k v m)) = (if fmlookup m k = None then Suc (fcard (fmdom m)) else fcard (fmdom m))"
  by (simp add: fcard_finsert_if fmdom_lookup)

lemma fcard_fmdrop_le: "fcard (fmdom (fmdrop k m)) \<le> fcard (fmdom m)"
  by (rule fcard_mono) auto

lemma fmdom_empty_iff: "fmdom m = {||} \<longleftrightarrow> m = fmempty"
  by (metis fmdom_empty fmrestrict_fset_dom fmrestrict_fset_null)

text \<open>Go allows deleting map entries while ranging over the map; filtering is its effect.\<close>

lemma fmfilter_drop: "fmdrop k m = fmfilter (\<lambda>k'. k' \<noteq> k) m"
  by (rule fmap_ext) simp

text \<open>
  A loop over distinct keys whose body changes only the entry of its own key, as a function of
  that entry, acts on every visited key once.
\<close>

lemma fold_pointwise:
  assumes "\<And>k m k'. fmlookup (f k m) k' = (if k' = k then g k (fmlookup m k) else fmlookup m k')"
    and "distinct ks"
  shows "fmlookup (fold f ks m) k = (if k \<in> set ks then g k (fmlookup m k) else fmlookup m k)"
  using assms(2)
proof (induction ks arbitrary: m)
  case (Cons k' ks)
  then show ?case using assms(1) by auto
qed simp

lemma fold_over_map:
  assumes "\<And>k m k'. fmlookup (f k m) k' = (if k' = k then g k (fmlookup m k) else fmlookup m k')"
    and "iteration_order ord" and "\<And>k. g k None = None"
  shows "fmlookup (fold f (ord (fmdom m)) m) k = g k (fmlookup m k)"
proof -
  have "fmlookup (fold f (ord (fmdom m)) m) k =
      (if k |\<in>| fmdom m then g k (fmlookup m k) else fmlookup m k)"
    using fold_pointwise [of f g "ord (fmdom m)" m k] assms
    by (simp add: iteration_order_distinct iteration_order_set)
  then show ?thesis using assms(3) by (auto simp: fmdom_lookup)
qed

section \<open>Lists\<close>

lemma nth_append_singleton_less:
  "i < length xs \<Longrightarrow> (xs @ [y]) ! i = xs ! i"
  by (simp add: nth_append)

section \<open>Exponential backoff\<close>

text \<open>
  The delay after \<open>i\<close> failures of a loop that starts at \<open>d\<close> nanoseconds, doubles after every failure and
  caps at 30 seconds; one iteration of such a loop advances it by one.
\<close>

definition backoff :: "int \<Rightarrow> nat \<Rightarrow> int" where
  "backoff d i = min (d * 2 ^ i) (30 * 1000000000)"

lemma backoff_next:
  assumes "0 \<le> d"
  shows "backoff (if 30 * 1000000000 < d * 2 then 30 * 1000000000 else d * 2) i = backoff d (Suc i)"
proof (cases "30 * 1000000000 < d * 2")
  case True
  then have "30 * 1000000000 \<le> d * 2 * 1" by simp
  also have "\<dots> \<le> d * 2 * 2 ^ i" using assms by (intro mult_left_mono) simp_all
  finally have "30 * 1000000000 \<le> d * 2 ^ Suc i" by (simp add: mult.assoc)
  moreover have "30 * 1000000000 * 1 \<le> (30 * 1000000000 :: int) * 2 ^ i" by (intro mult_left_mono) simp_all
  ultimately show ?thesis using True by (simp add: backoff_def)
qed (simp add: backoff_def mult.assoc)

end
