(* ===== verification/GoStd.thy ===== *)
theory GoStd
  imports Prelude "HOL-Library.Sublist"
begin

text \<open>
  The parts of Go's standard library the program computes with: \<open>strings.TrimSpace\<close>,
  \<open>Fields\<close>, \<open>Join\<close>, \<open>HasPrefix\<close>, \<open>HasSuffix\<close>, \<open>Contains\<close>, \<open>TrimPrefix\<close>,
  \<open>ToLower\<close> and \<open>hex.EncodeToString\<close>, on byte strings.

  White space is \<open>unicode.IsSpace\<close> on UTF-8 text. The table below lists the encodings of the
  space characters; the lead bytes C2, E1, E2 and E3 never occur inside another rune's
  encoding, so looking for the encodings byte by byte finds what decoding runes finds.
\<close>

section \<open>White space\<close>

definition ascii_spaces :: "string list" where
  "ascii_spaces = [[CHR 0x09], [CHR 0x0A], [CHR 0x0B], [CHR 0x0C], [CHR 0x0D], [CHR 0x20]]"

definition wide_spaces :: "string list" where
  "wide_spaces =
     [[CHR 0xC2, CHR 0x85], [CHR 0xC2, CHR 0xA0], [CHR 0xE1, CHR 0x9A, CHR 0x80],
      [CHR 0xE2, CHR 0x80, CHR 0x80], [CHR 0xE2, CHR 0x80, CHR 0x81], [CHR 0xE2, CHR 0x80, CHR 0x82],
      [CHR 0xE2, CHR 0x80, CHR 0x83], [CHR 0xE2, CHR 0x80, CHR 0x84], [CHR 0xE2, CHR 0x80, CHR 0x85],
      [CHR 0xE2, CHR 0x80, CHR 0x86], [CHR 0xE2, CHR 0x80, CHR 0x87], [CHR 0xE2, CHR 0x80, CHR 0x88],
      [CHR 0xE2, CHR 0x80, CHR 0x89], [CHR 0xE2, CHR 0x80, CHR 0x8A], [CHR 0xE2, CHR 0x80, CHR 0xA8],
      [CHR 0xE2, CHR 0x80, CHR 0xA9], [CHR 0xE2, CHR 0x80, CHR 0xAF], [CHR 0xE2, CHR 0x81, CHR 0x9F],
      [CHR 0xE3, CHR 0x80, CHR 0x80]]"

definition go_spaces :: "string list" where
  "go_spaces = ascii_spaces @ wide_spaces"

text \<open>The width of the first pattern of a list that the string starts with, 0 for none.\<close>

fun pat_len :: "string list \<Rightarrow> string \<Rightarrow> nat" where
  "pat_len [] s = 0"
| "pat_len (p # ps) s = (if prefix p s then length p else pat_len ps s)"

lemma pat_len_le: "pat_len ps s \<le> length s"
  by (induction ps) (auto dest: prefix_length_le)

lemma pat_len_Nil [simp]: "pat_len ps [] = 0"
  by (induction ps) auto

text \<open>Drop matching patterns from the front; with reversed patterns, from the back.\<close>

function strip :: "string list \<Rightarrow> string \<Rightarrow> string" where
  "strip ps s = (if pat_len ps s = 0 then s else strip ps (drop (pat_len ps s) s))"
  by pat_completeness auto
termination
proof (relation "measure (\<lambda>(ps, s). length s)", goal_cases)
  case (2 ps s)
  then have "s \<noteq> []" by (cases s) auto
  with 2 show ?case by simp
qed simp

declare strip.simps [simp del]

lemma strip_stop: "pat_len ps s = 0 \<Longrightarrow> strip ps s = s"
  by (simp add: strip.simps)

lemma pat_len_strip [simp]: "pat_len ps (strip ps s) = 0"
  by (induction ps s rule: strip.induct) (metis strip.simps)

lemma strip_suffix: "suffix (strip ps s) s"
proof (induction ps s rule: strip.induct)
  case (1 ps s)
  then show ?case
    by (cases "pat_len ps s = 0")
      (auto simp: strip.simps [of ps s] intro: suffix_order.order_trans suffix_drop)
qed

definition TrimLeftSpace :: "string \<Rightarrow> string" where
  "TrimLeftSpace s = strip go_spaces s"

definition TrimRightSpace :: "string \<Rightarrow> string" where
  "TrimRightSpace s = rev (strip (map rev go_spaces) (rev s))"

definition TrimSpace :: "string \<Rightarrow> string" where
  "TrimSpace s = TrimRightSpace (TrimLeftSpace s)"

section \<open>Fields and Join\<close>

text \<open>\<open>cur\<close> holds the bytes of the field being read, in reverse.\<close>

function fields_from :: "string \<Rightarrow> string \<Rightarrow> string list" where
  "fields_from cur [] = (if cur = [] then [] else [rev cur])"
| "fields_from cur (c # s) =
     (if pat_len go_spaces (c # s) = 0 then fields_from (c # cur) s
      else (if cur = [] then [] else [rev cur]) @
           fields_from [] (drop (pat_len go_spaces (c # s)) (c # s)))"
  by pat_completeness auto
termination by (relation "measure (\<lambda>(cur, s). length s)") auto

definition Fields :: "string \<Rightarrow> string list" where
  "Fields s = fields_from [] s"

fun Join :: "string list \<Rightarrow> string \<Rightarrow> string" where
  "Join [] sep = []"
| "Join [w] sep = w"
| "Join (w # ws) sep = w @ sep @ Join ws sep"

lemma Join_Cons: "ws \<noteq> [] \<Longrightarrow> Join (w # ws) sep = w @ sep @ Join ws sep"
  by (cases ws) auto

text \<open>A word: not empty, and all its bytes are printable ASCII other than the space.\<close>

definition printable :: "char \<Rightarrow> bool" where
  "printable c \<longleftrightarrow> 33 \<le> (of_char c :: nat) \<and> (of_char c :: nat) < 127"

definition is_word :: "string \<Rightarrow> bool" where
  "is_word w \<longleftrightarrow> w \<noteq> [] \<and> list_all printable w"

lemma pat_len_hd: "\<forall>p \<in> set ps. p \<noteq> [] \<and> hd p \<noteq> c \<Longrightarrow> pat_len ps (c # s) = 0"
  by (induction ps) (auto simp: prefix_def neq_Nil_conv)

lemma go_spaces_hd: "list_all (\<lambda>p. p \<noteq> [] \<and> \<not> printable (hd p)) (go_spaces @ map rev go_spaces)"
  by code_simp

lemma pat_len_printable:
  "printable c \<Longrightarrow> pat_len go_spaces (c # s) = 0"
  "printable c \<Longrightarrow> pat_len (map rev go_spaces) (c # s) = 0"
  using go_spaces_hd by (auto simp: list_all_iff intro!: pat_len_hd)

lemma strip_word: "list_all printable w \<Longrightarrow> strip go_spaces w = w \<and> strip (map rev go_spaces) w = w"
  by (cases w) (auto simp: strip_stop pat_len_printable)

lemma TrimSpace_word: "list_all printable w \<Longrightarrow> TrimSpace w = w"
  using strip_word [of w] strip_word [of "rev w"]
  by (simp add: TrimSpace_def TrimLeftSpace_def TrimRightSpace_def)

lemma TrimSpace_ends: "printable (hd s) \<Longrightarrow> printable (last s) \<Longrightarrow> s \<noteq> [] \<Longrightarrow> TrimSpace s = s"
proof -
  assume s: "printable (hd s)" "printable (last s)" "s \<noteq> []"
  have "strip go_spaces s = s" using s(1,3) by (cases s) (auto simp: strip_stop pat_len_printable)
  moreover have "strip (map rev go_spaces) (rev s) = rev s"
    using s(2,3) by (cases "rev s") (auto simp: strip_stop pat_len_printable hd_rev [symmetric])
  ultimately show ?thesis by (simp add: TrimSpace_def TrimLeftSpace_def TrimRightSpace_def)
qed

lemma fields_from_word:
  "list_all printable w \<Longrightarrow> fields_from cur (w @ s) = fields_from (rev w @ cur) s"
  by (induction w arbitrary: cur) (auto simp: pat_len_printable)

lemma fields_from_space:
  "fields_from cur (CHR '' '' # s) = (if cur = [] then [] else [rev cur]) @ fields_from [] s"
  by (simp add: go_spaces_def ascii_spaces_def)

text \<open>Splitting what was joined with single spaces gives the words back.\<close>

lemma Fields_Join:
  "\<forall>w \<in> set ws. is_word w \<Longrightarrow> Fields (Join ws '' '') = ws"
proof (induction ws)
  case Nil
  then show ?case by (simp add: Fields_def)
next
  case (Cons w ws)
  then have w: "w \<noteq> []" "list_all printable w"
    by (auto simp: is_word_def)
  show ?case
  proof (cases "ws = []")
    case True
    then show ?thesis
      using w fields_from_word [OF w(2), of "[]" "[]"] by (simp add: Fields_def)
  next
    case False
    then have "Fields (Join (w # ws) '' '') = w # Fields (Join ws '' '')"
      using w by (simp add: Join_Cons Fields_def fields_from_word fields_from_space
          del: fields_from.simps)
    then show ?thesis using Cons by simp
  qed
qed

section \<open>Prefixes, suffixes, lower case\<close>

definition HasPrefix :: "string \<Rightarrow> string \<Rightarrow> bool" where
  "HasPrefix s p = prefix p s"

definition HasSuffix :: "string \<Rightarrow> string \<Rightarrow> bool" where
  "HasSuffix s p = suffix p s"

fun Contains :: "string \<Rightarrow> string \<Rightarrow> bool" where
  "Contains [] p = (p = [])"
| "Contains (c # s) p = (prefix p (c # s) \<or> Contains s p)"

lemma Contains_iff: "Contains s p \<longleftrightarrow> sublist p s"
  by (induction s) (auto simp: sublist_Cons_right)

definition TrimPrefix :: "string \<Rightarrow> string \<Rightarrow> string" where
  "TrimPrefix s p = (if prefix p s then drop (length p) s else s)"

lemma TrimPrefix_append [simp]: "TrimPrefix (p @ s) p = s"
  by (simp add: TrimPrefix_def)

text \<open>
  \<open>strings.ToLower\<close>: on ASCII strings a byte at a time, as the library's fast path does. What
  it does to other text is Unicode's case tables, the parameter \<open>uni\<close>.
\<close>

definition lower_byte :: "char \<Rightarrow> char" where
  "lower_byte c =
     (if 65 \<le> (of_char c :: nat) \<and> (of_char c :: nat) \<le> 90 then char_of (of_char c + 32 :: nat) else c)"

definition is_ascii :: "string \<Rightarrow> bool" where
  "is_ascii s = list_all (\<lambda>c. (of_char c :: nat) < 128) s"

definition ToLower :: "(string \<Rightarrow> string) \<Rightarrow> string \<Rightarrow> string" where
  "ToLower uni s = (if is_ascii s then map lower_byte s else uni s)"

section \<open>hex.EncodeToString\<close>

definition hex_digit :: "nat \<Rightarrow> char" where
  "hex_digit n = ''0123456789abcdef'' ! n"

definition hex_encode :: "string \<Rightarrow> string" where
  "hex_encode bs = concat (map (\<lambda>b. [hex_digit (of_char b div 16), hex_digit (of_char b mod 16)]) bs)"

definition is_hex :: "string \<Rightarrow> bool" where
  "is_hex s = list_all (\<lambda>c. c \<in> set ''0123456789abcdef'') s"

lemma hex_digit_in: "n < 16 \<Longrightarrow> hex_digit n \<in> set ''0123456789abcdef''"
  unfolding hex_digit_def by (rule nth_mem) simp

lemma hex_encode_is_hex: "is_hex (hex_encode bs)"
proof -
  have "(of_char b :: nat) div 16 < 16" for b
    using nat_of_char_less_256 [of b] by linarith
  then show ?thesis
    by (induction bs) (auto simp: hex_encode_def is_hex_def simp del: set_simps intro!: hex_digit_in)
qed

lemma length_hex_encode: "length (hex_encode bs) = 2 * length bs"
  by (induction bs) (simp_all add: hex_encode_def)

end
