(* ===== verification/Protocol.thy ===== *)
theory Protocol
  imports Prelude "HOL-Library.Word" "HOL-Library.Sublist"
begin

text \<open>
  internal/protocol/protocol.go: length-prefixed frames over a connection.

  A connection is a record: the bytes its peer will still deliver before reads fail, the error
  the first read past them returns (\<open>io.EOF\<close>, a deadline, a reset), the bytes already
  accepted for the peer, and how many more a write may deliver before it fails (\<open>None\<close>: no
  write fails). \<open>ReadMessage\<close> and \<open>WriteMessage\<close> are the code's functions on it.
\<close>

unbundle bit_operations_syntax

record conn_st =
  inb :: string
  rerr :: go_error
  outb :: string
  wcap :: "nat option"

record frame =
  frame_Length :: "32 word"
  frame_Data :: string

section \<open>encoding/binary, io\<close>

definition PutUint32 :: "32 word \<Rightarrow> string" where
  "PutUint32 v = [char_of (unat (drop_bit 24 v)), char_of (unat (drop_bit 16 v)),
                  char_of (unat (drop_bit 8 v)), char_of (unat v)]"

definition Uint32 :: "string \<Rightarrow> 32 word" where
  "Uint32 b = of_char (b ! 3) OR push_bit 8 (of_char (b ! 2)) OR
              push_bit 16 (of_char (b ! 1)) OR push_bit 24 (of_char (b ! 0))"

text \<open>\<open>io.ReadFull\<close> into a buffer of \<open>n\<close> bytes.\<close>

definition ReadFull :: "nat \<Rightarrow> conn_st \<Rightarrow> (go_error + string) \<times> conn_st" where
  "ReadFull n c =
     (if n \<le> length (inb c) then (Inr (take n (inb c)), c\<lparr>inb := drop n (inb c)\<rparr>)
      else (Inl (if inb c \<noteq> [] \<and> rerr c = EOF then UnexpectedEOF else rerr c), c\<lparr>inb := []\<rparr>))"

text \<open>\<open>conn.Write\<close>: all the bytes, or some of them and an error.\<close>

definition Write :: "string \<Rightarrow> conn_st \<Rightarrow> go_error option \<times> conn_st" where
  "Write bs c =
     (case wcap c of
        None \<Rightarrow> (None, c\<lparr>outb := outb c @ bs\<rparr>)
      | Some k \<Rightarrow>
          if length bs \<le> k then (None, c\<lparr>outb := outb c @ bs, wcap := Some (k - length bs)\<rparr>)
          else (Some (Err ''write: broken pipe''), c\<lparr>outb := outb c @ take k bs, wcap := Some 0\<rparr>))"

section \<open>Frames\<close>

definition maxMessageSize :: "32 word" where
  "maxMessageSize = push_bit 20 1"

fun decimal :: "nat \<Rightarrow> string" where
  "decimal n = (if n < 10 then [char_of (48 + n)] else decimal (n div 10) @ [char_of (48 + n mod 10)])"

declare decimal.simps [simp del]

definition ReadMessage :: "conn_st \<Rightarrow> (go_error + frame) \<times> conn_st" where
  "ReadMessage c =
     (case ReadFull 4 c of
        (Inl e, c) \<Rightarrow> (Inl (Wrap ''read header error'' e), c)
      | (Inr buf, c) \<Rightarrow>
          let len = Uint32 buf in
          if len > maxMessageSize
          then (Inl (Err (''message too large: '' @ decimal (unat len) @ '' bytes'')), c)
          else (case ReadFull (unat len) c of
                  (Inl e, c) \<Rightarrow> (Inl (Wrap ''read body error'' e), c)
                | (Inr dat, c) \<Rightarrow> (Inr \<lparr>frame_Length = len, frame_Data = dat\<rparr>, c)))"

definition WriteMessage :: "string \<Rightarrow> conn_st \<Rightarrow> go_error option \<times> conn_st" where
  "WriteMessage dat c =
     (let len = of_nat (length dat) :: 32 word in
      case Write (PutUint32 len) c of
        (Some e, c) \<Rightarrow> (Some (Wrap ''write header error'' e), c)
      | (None, c) \<Rightarrow>
          (case Write dat c of
             (Some e, c) \<Rightarrow> (Some (Wrap ''write body error'' e), c)
           | (None, c) \<Rightarrow> (None, c)))"

text \<open>The bytes of one frame on the wire: the two writes of \<open>WriteMessage\<close>.\<close>

definition write_steps :: "string \<Rightarrow> string list" where
  "write_steps dat = [PutUint32 (of_nat (length dat)), dat]"

definition encode :: "string \<Rightarrow> string" where
  "encode dat = concat (write_steps dat)"

definition fits :: "string \<Rightarrow> bool" where
  "fits dat \<longleftrightarrow> length dat \<le> 2 ^ 20"

section \<open>Lemmas\<close>

lemma of_char_word: "(of_char b :: 32 word) = of_nat (of_char b)"
  by (rule of_nat_of_char [symmetric])

lemma of_char_unat: "char_of (unat (of_char b :: 32 word)) = b"
proof -
  have "(of_char b :: nat) < 2 ^ 32"
    by (rule less_trans [OF nat_of_char_less_256]) simp
  then show ?thesis
    by (simp only: of_char_word unat_of_nat take_bit_nat_eq_self) simp
qed

lemma char_of_eq_take_bit: "(of_char (char_of (unat (w :: 32 word))) :: 32 word) = take_bit 8 w"
proof -
  have "(of_char (char_of (unat w)) :: 32 word) = of_nat (unat w mod 256)"
    by (metis of_char_of of_nat_of_char)
  also have "\<dots> = of_nat (take_bit 8 (unat w))"
    by (simp add: take_bit_eq_mod)
  also have "\<dots> = take_bit 8 w"
    by (simp add: take_bit_of_nat [symmetric])
  finally show ?thesis .
qed

lemma length_PutUint32 [simp]: "length (PutUint32 v) = 4"
  by (simp add: PutUint32_def)

lemma Uint32_PutUint32: "Uint32 (PutUint32 v) = v"
proof -
  have "Uint32 (PutUint32 v) = take_bit 8 v OR push_bit 8 (take_bit 8 (drop_bit 8 v)) OR
      push_bit 16 (take_bit 8 (drop_bit 16 v)) OR push_bit 24 (take_bit 8 (drop_bit 24 v))"
    by (simp add: Uint32_def PutUint32_def char_of_eq_take_bit numeral_3_eq_3)
  also have "\<dots> = v"
  proof (rule bit_word_eqI)
    fix n assume "n < LENGTH(32)"
    then show "bit (take_bit 8 v OR push_bit 8 (take_bit 8 (drop_bit 8 v)) OR
      push_bit 16 (take_bit 8 (drop_bit 16 v)) OR push_bit 24 (take_bit 8 (drop_bit 24 v))) n = bit v n"
      by (cases "n < 24"; cases "n < 16"; cases "n < 8") (auto simp: bit_simps)
  qed
  finally show ?thesis .
qed

lemma ReadFull_ok: "length bs = n \<Longrightarrow> inb c = bs @ rest \<Longrightarrow> ReadFull n c = (Inr bs, c\<lparr>inb := rest\<rparr>)"
  by (simp add: ReadFull_def)

lemma ReadFull_InrD:
  "ReadFull n c = (Inr bs, c') \<Longrightarrow> length bs = n \<and> inb c = bs @ inb c' \<and> c' = c\<lparr>inb := inb c'\<rparr>"
  by (auto simp: ReadFull_def split: if_splits)

lemma unat_of_nat_32: "n < 2 ^ 32 \<Longrightarrow> unat (of_nat n :: 32 word) = n"
  by (simp add: unat_of_nat take_bit_nat_eq_self)

lemma unat_maxMessageSize: "unat maxMessageSize = 2 ^ 20"
  by (simp add: maxMessageSize_def)

lemma gt_maxMessageSize: "len > maxMessageSize \<longleftrightarrow> 2 ^ 20 < unat len"
  unfolding word_less_nat_alt unat_maxMessageSize ..

lemma encode_eq: "encode d = PutUint32 (of_nat (length d)) @ d"
  by (simp add: encode_def write_steps_def)

lemma ReadMessage_header:
  assumes "inb c = PutUint32 len @ rest"
  shows "ReadMessage c =
    (if 2 ^ 20 < unat len
     then (Inl (Err (''message too large: '' @ decimal (unat len) @ '' bytes'')), c\<lparr>inb := rest\<rparr>)
     else (case ReadFull (unat len) (c\<lparr>inb := rest\<rparr>) of
             (Inl e, c') \<Rightarrow> (Inl (Wrap ''read body error'' e), c')
           | (Inr dat, c') \<Rightarrow> (Inr \<lparr>frame_Length = len, frame_Data = dat\<rparr>, c')))"
  using ReadFull_ok [OF length_PutUint32 assms]
  by (simp add: ReadMessage_def Uint32_PutUint32 gt_maxMessageSize Let_def)

lemma ReadMessage_encode:
  assumes "inb c = encode d @ rest" and "fits d"
  shows "ReadMessage c =
    (Inr \<lparr>frame_Length = of_nat (length d), frame_Data = d\<rparr>, c\<lparr>inb := rest\<rparr>)"
proof -
  have len: "unat (of_nat (length d) :: 32 word) = length d"
    using assms(2) by (intro unat_of_nat_32) (simp add: fits_def)
  have "inb c = PutUint32 (of_nat (length d)) @ (d @ rest)"
    using assms(1) by (simp add: encode_eq)
  from ReadMessage_header [OF this] show ?thesis
    using assms(2) ReadFull_ok [of d "length d" "c\<lparr>inb := d @ rest\<rparr>" rest]
    by (simp add: len fits_def)
qed

lemma char_of_unat_byte: "(char_of (unat (v :: 32 word)) :: char) = char_of (unat (take_bit 8 v))"
proof -
  have "unat (take_bit 8 v) = take_bit 8 (unat v)"
    by (rule unsigned_take_bit_eq)
  also have "\<dots> = unat v mod 256"
    by (simp add: take_bit_eq_mod)
  finally show ?thesis by (simp only: char_of_mod_256)
qed

text \<open>The bytes of a word put together from four byte-sized words.\<close>

lemma bytes_of_word:
  fixes a b c d :: "32 word"
  assumes "\<And>n. bit a n \<Longrightarrow> n < 8" "\<And>n. bit b n \<Longrightarrow> n < 8"
    and "\<And>n. bit c n \<Longrightarrow> n < 8" "\<And>n. bit d n \<Longrightarrow> n < 8"
  defines "v \<equiv> a OR push_bit 8 b OR push_bit 16 c OR push_bit 24 d"
  shows "take_bit 8 v = a" "take_bit 8 (drop_bit 8 v) = b"
    "take_bit 8 (drop_bit 16 v) = c" "take_bit 8 (drop_bit 24 v) = d"
proof -
  show "take_bit 8 v = a"
    using assms(1-4) unfolding v_def by (intro bit_word_eqI) (auto simp: bit_simps)
  show "take_bit 8 (drop_bit 8 v) = b"
    using assms(1-4) unfolding v_def by (intro bit_word_eqI) (fastforce simp: bit_simps)
  show "take_bit 8 (drop_bit 16 v) = c"
    using assms(1-4) unfolding v_def by (intro bit_word_eqI) (fastforce simp: bit_simps)
  show "take_bit 8 (drop_bit 24 v) = d"
    using assms(1-4) unfolding v_def by (intro bit_word_eqI) (fastforce simp: bit_simps)
qed

lemma bit_of_char_word: "bit (of_char b :: 32 word) n \<Longrightarrow> n < 8"
  by (metis bit_take_bit_iff char_of_eq_take_bit of_char_unat)

lemma PutUint32_Uint32_bytes: "PutUint32 (Uint32 [b0, b1, b2, b3]) = [b0, b1, b2, b3]"
proof -
  let ?v = "Uint32 [b0, b1, b2, b3]"
  have v: "?v = of_char b3 OR push_bit 8 (of_char b2) OR push_bit 16 (of_char b1) OR push_bit 24 (of_char b0)"
    by (simp add: Uint32_def numeral_3_eq_3)
  note bytes = bytes_of_word [of "of_char b3" "of_char b2" "of_char b1" "of_char b0",
      OF bit_of_char_word bit_of_char_word bit_of_char_word bit_of_char_word, folded v]
  show ?thesis
    unfolding PutUint32_def
    by (simp only: char_of_unat_byte [of "drop_bit _ _"] char_of_unat_byte [of ?v] bytes of_char_unat)
qed

lemma ReadMessage_InrD:
  assumes "ReadMessage c = (Inr f, c')"
  shows "inb c = encode (frame_Data f) @ inb c' \<and> fits (frame_Data f) \<and>
         unat (frame_Length f) = length (frame_Data f) \<and> c' = c\<lparr>inb := inb c'\<rparr>"
proof -
  obtain buf c1 where h: "ReadFull 4 c = (Inr buf, c1)"
    using assms by (auto simp: ReadMessage_def split: prod.splits sum.splits)
  obtain dat where small: "unat (Uint32 buf) \<le> 2 ^ 20"
    and b: "ReadFull (unat (Uint32 buf)) c1 = (Inr dat, c')"
    and f: "f = \<lparr>frame_Length = Uint32 buf, frame_Data = dat\<rparr>"
    using assms h
    by (auto simp: ReadMessage_def Let_def gt_maxMessageSize split: prod.splits sum.splits if_splits)
  note hd = ReadFull_InrD [OF h] and bd = ReadFull_InrD [OF b]
  have "PutUint32 (Uint32 buf) = buf"
  proof -
    obtain b0 b1 b2 b3 where "buf = [b0, b1, b2, b3]"
      using hd by (auto simp: numeral_eq_Suc length_Suc_conv)
    then show ?thesis
      by (simp add: PutUint32_Uint32_bytes)
  qed
  then show ?thesis
    using hd bd small by (auto simp: f encode_eq fits_def)
qed

text \<open>Every successful read takes at least the four header bytes, so a reader of a finite stream stops.\<close>

lemma ReadMessage_shorter: "ReadMessage c = (Inr f, c') \<Longrightarrow> length (inb c') < length (inb c)"
  by (drule ReadMessage_InrD) (auto simp: encode_eq)

text \<open>A receive loop, as every reader of the program runs it: read until an error.\<close>

function recv_all :: "conn_st \<Rightarrow> frame list \<times> go_error \<times> conn_st" where
  "recv_all c =
     (case ReadMessage c of
        (Inl e, c') \<Rightarrow> ([], e, c')
      | (Inr f, c') \<Rightarrow> (let (fs, r) = recv_all c' in (f # fs, r)))"
  by pat_completeness auto
termination
  by (relation "measure (\<lambda>c. length (inb c))") (auto dest: ReadMessage_shorter [OF sym])

declare recv_all.simps [simp del]

lemma recv_all_end: "inb c = [] \<Longrightarrow> recv_all c = ([], Wrap ''read header error'' (rerr c), c)"
  by (simp add: recv_all.simps ReadMessage_def ReadFull_def)

lemma recv_all_encode:
  assumes "inb c = encode d @ rest" and "fits d"
  shows "recv_all c =
    (let (fs, r) = recv_all (c\<lparr>inb := rest\<rparr>)
     in (\<lparr>frame_Length = of_nat (length d), frame_Data = d\<rparr> # fs, r))"
  by (subst recv_all.simps) (simp add: ReadMessage_encode [OF assms])

text \<open>What a write leaves on the wire.\<close>

lemma Write_None: "wcap c = None \<Longrightarrow> Write bs c = (None, c\<lparr>outb := outb c @ bs\<rparr>)"
  by (simp add: Write_def)

lemma WriteMessage_None:
  "wcap c = None \<Longrightarrow> WriteMessage d c = (None, c\<lparr>outb := outb c @ encode d\<rparr>)"
  by (simp add: WriteMessage_def Write_None Let_def encode_eq)

lemma Write_cases:
  obtains (ok) c' where "Write bs c = (None, c')" "outb c' = outb c @ bs" "inb c' = inb c" "rerr c' = rerr c"
  | (failed) c' e k where "Write bs c = (Some e, c')" "outb c' = outb c @ take k bs" "k < length bs"
      "wcap c' = Some 0" "inb c' = inb c" "rerr c' = rerr c"
  by (cases "wcap c"; cases "\<exists>k. wcap c = Some k \<and> length bs \<le> k")
    (auto simp: Write_def split: if_splits)

lemma WriteMessage_cases:
  obtains (ok) c' where "WriteMessage d c = (None, c')" "outb c' = outb c @ encode d" "inb c' = inb c" "rerr c' = rerr c"
  | (failed) c' e k where "WriteMessage d c = (Some e, c')" "outb c' = outb c @ take k (encode d)"
      "k < length (encode d)" "inb c' = inb c" "rerr c' = rerr c"
proof (cases rule: Write_cases [of "PutUint32 (of_nat (length d))" c])
  case (ok c1)
  note h = this
  show thesis
  proof (cases rule: Write_cases [of d c1])
    case (ok c2)
    then show thesis
      using h by (intro that(1) [of c2]) (auto simp: WriteMessage_def Let_def encode_eq)
  next
    case (failed c2 e k)
    then show thesis
      using h by (intro that(2) [of "Wrap ''write body error'' e" c2 "k + 4"])
        (auto simp: WriteMessage_def Let_def encode_eq)
  qed
next
  case (failed c1 e k)
  then show thesis
    by (intro that(2) [of "Wrap ''write header error'' e" c1 k])
      (auto simp: WriteMessage_def Let_def encode_eq)
qed

lemma WriteMessage_frame: "inb (snd (WriteMessage d c)) = inb c \<and> rerr (snd (WriteMessage d c)) = rerr c"
  by (cases rule: WriteMessage_cases [of d c]) auto

section \<open>Properties\<close>

text \<open>A sender's messages, one after the other, and what the peer's end of the connection holds.\<close>

definition send_all :: "string list \<Rightarrow> conn_st \<Rightarrow> conn_st" where
  "send_all ds c = fold (\<lambda>d c. snd (WriteMessage d c)) ds c"

definition peer_of :: "conn_st \<Rightarrow> conn_st" where
  "peer_of c = \<lparr>inb = outb c, rerr = EOF, outb = [], wcap = None\<rparr>"

definition wire :: "string \<Rightarrow> conn_st" where
  "wire bs = \<lparr>inb = bs, rerr = EOF, outb = [], wcap = None\<rparr>"

lemma send_all_outb:
  "wcap c = None \<Longrightarrow> outb (send_all ds c) = outb c @ concat (map encode ds)"
  unfolding send_all_def
  by (induction ds arbitrary: c) (simp_all add: WriteMessage_None)

lemma recv_all_stream:
  "inb c = concat (map encode ds) \<Longrightarrow> \<forall>d \<in> set ds. fits d \<Longrightarrow>
   recv_all c = (map (\<lambda>d. \<lparr>frame_Length = of_nat (length d), frame_Data = d\<rparr>) ds,
                 Wrap ''read header error'' (rerr c), c\<lparr>inb := []\<rparr>)"
proof (induction ds arbitrary: c)
  case Nil
  then show ?case by (simp add: recv_all_end)
next
  case (Cons d ds)
  then have "inb c = encode d @ concat (map encode ds)" "fits d" by simp_all
  from recv_all_encode [OF this] show ?case
    using Cons.prems by (simp add: Cons.IH)
qed

text \<open>
  C8. Round trip of the framing: whatever messages of at most 1 MiB a sender writes one after
  the other, the peer's receive loop returns exactly these payloads in this order, and then
  stops on the clean end of the stream (\<open>io.EOF\<close> while reading a header).
\<close>

theorem stream_roundtrip:
  assumes "wcap c = None" and "outb c = []" and "\<forall>d \<in> set ds. fits d"
  shows "map frame_Data (fst (recv_all (peer_of (send_all ds c)))) = ds \<and>
         fst (snd (recv_all (peer_of (send_all ds c)))) = Wrap ''read header error'' EOF"
proof -
  have "inb (peer_of (send_all ds c)) = concat (map encode ds)"
    using send_all_outb [OF assms(1)] assms(2) by (simp add: peer_of_def)
  from recv_all_stream [OF this assms(3)] show ?thesis
    by (simp add: comp_def peer_of_def)
qed

theorem stream_roundtrip_witness:
  "map frame_Data (fst (recv_all (peer_of (send_all [''/login'', []] (wire []))))) = [''/login'', []]"
proof -
  have "wcap (wire []) = None" "outb (wire []) = []" "\<forall>d \<in> set [''/login'', []]. fits d"
    by (simp_all add: wire_def fits_def)
  from stream_roundtrip [OF this] show ?thesis by blast
qed

text \<open>
  C35. \<open>ReadMessage\<close> accepts exactly the encodings: it returns the frame \<open>f\<close> and leaves
  \<open>rest\<close> unread if and only if the bytes waiting are the header and payload of \<open>f\<close> followed by
  \<open>rest\<close>, the payload is at most 1 MiB and \<open>Length\<close> is its byte count.
\<close>

theorem ReadMessage_iff:
  "ReadMessage c = (Inr f, c\<lparr>inb := rest\<rparr>) \<longleftrightarrow>
   inb c = encode (frame_Data f) @ rest \<and> fits (frame_Data f) \<and>
   frame_Length f = of_nat (length (frame_Data f))"
proof
  assume "ReadMessage c = (Inr f, c\<lparr>inb := rest\<rparr>)"
  from ReadMessage_InrD [OF this]
  show "inb c = encode (frame_Data f) @ rest \<and> fits (frame_Data f) \<and>
      frame_Length f = of_nat (length (frame_Data f))"
    by (metis conn_st.select_convs(1) conn_st.surjective conn_st.update_convs(1) of_nat_unat ucast_id)
next
  assume "inb c = encode (frame_Data f) @ rest \<and> fits (frame_Data f) \<and>
      frame_Length f = of_nat (length (frame_Data f))"
  then show "ReadMessage c = (Inr f, c\<lparr>inb := rest\<rparr>)"
    by (simp add: ReadMessage_encode [of c "frame_Data f" rest])
qed

text \<open>
  C36. The two ends disagree on size: \<open>WriteMessage\<close> has no limit, so it delivers a payload above
  1 MiB (below 4 GiB) without an error, and the peer's \<open>ReadMessage\<close> then refuses it and leaves
  the whole payload in the stream, where the next read takes it for a header.
\<close>

theorem oversized_write_refused:
  assumes "2 ^ 20 < length d" and "length d < 2 ^ 32" and "wcap c = None" and "outb c = []"
  shows "fst (WriteMessage d c) = None \<and>
    ReadMessage (peer_of (snd (WriteMessage d c))) =
      (Inl (Err (''message too large: '' @ decimal (length d) @ '' bytes'')), wire d)"
proof -
  have "inb (peer_of (snd (WriteMessage d c))) = PutUint32 (of_nat (length d)) @ d"
    using assms(3,4) by (simp add: WriteMessage_None peer_of_def encode_eq)
  from ReadMessage_header [OF this] show ?thesis
    using assms by (simp add: unat_of_nat_32 WriteMessage_None peer_of_def wire_def)
qed

theorem oversized_write_refused_witness:
  "\<exists>d. 2 ^ 20 < length d \<and> fst (WriteMessage d (wire [])) = None \<and>
       snd (ReadMessage (peer_of (snd (WriteMessage d (wire []))))) = wire d"
proof (intro exI conjI)
  let ?d = "replicate (2 ^ 20 + 1) CHR ''x''"
  have h: "2 ^ 20 < length ?d" "length ?d < 2 ^ 32" "wcap (wire []) = None" "outb (wire []) = []"
    by (simp_all only: length_replicate wire_def conn_st.simps) simp_all
  show "2 ^ 20 < length ?d" by (rule h(1))
  note w = oversized_write_refused [OF h]
  show "fst (WriteMessage ?d (wire [])) = None" using w by blast
  show "snd (ReadMessage (peer_of (snd (WriteMessage ?d (wire []))))) = wire ?d"
    using w by (metis snd_conv)
qed

text \<open>
  What a failing \<open>WriteMessage\<close> leaves behind: without an error the whole frame is on the
  wire; with one, a proper prefix of the frame is, and nothing else changed. So after a failed
  write the stream is cut inside a frame.
\<close>

theorem WriteMessage_wire:
  "(\<exists>c'. WriteMessage d c = (None, c') \<and> outb c' = outb c @ encode d \<and> inb c' = inb c) \<or>
   (\<exists>c' e k. WriteMessage d c = (Some e, c') \<and> k < length (encode d) \<and>
      outb c' = outb c @ take k (encode d) \<and> inb c' = inb c)"
  by (cases rule: WriteMessage_cases [of d c]) auto

text \<open>
  C37. \<open>WriteMessage\<close> is two writes, and no lock covers both. Two goroutines that write the text
  messages \<open>a\<close> and \<open>b\<close> to one connection can interleave them so that the peer receives as its
  first frame neither \<open>a\<close> nor \<open>b\<close> (the handler of a client writes to its own connection while
  broadcasts of other handlers write to it too).
\<close>

theorem concurrent_writes_corrupt:
  assumes "a \<noteq> []" and "hd a \<noteq> CHR 0x00" and "fits a" and "hd b \<noteq> CHR 0x00" and "fits b"
  shows "\<exists>ws \<in> shuffles (write_steps a) (write_steps b). \<exists>f c'.
           ReadMessage (wire (concat ws)) = (Inr f, c') \<and> frame_Data f \<noteq> a \<and> frame_Data f \<noteq> b"
proof -
  let ?ha = "PutUint32 (of_nat (length a))" and ?hb = "PutUint32 (of_nat (length b))"
  have sh: "[?ha, ?hb, a, b] \<in> shuffles (write_steps a) (write_steps b)"
    by (simp add: write_steps_def Cons_in_shuffles_iff)
  have la: "unat (of_nat (length a) :: 32 word) = length a"
    using assms(3) by (intro unat_of_nat_32) (simp add: fits_def)
  have lb: "unat (of_nat (length b) :: 32 word) = length b"
    using assms(5) by (intro unat_of_nat_32) (simp add: fits_def)
  have "unat (drop_bit 24 (of_nat (length b) :: 32 word)) = drop_bit 24 (length b)"
    by (simp only: unat_drop_bit_eq lb)
  also have "\<dots> = 0"
    using assms(5) by (simp add: fits_def drop_bit_eq_div)
  finally obtain t where hb: "?hb = CHR 0x00 # t"
    by (simp only: PutUint32_def) (simp add: char_of_def)
  let ?rd = "take (length a) (?hb @ a @ b)"
  have "inb (wire (concat [?ha, ?hb, a, b])) = ?ha @ (?hb @ a @ b)"
    by (simp add: wire_def)
  from ReadMessage_header [OF this]
  have r: "ReadMessage (wire (concat [?ha, ?hb, a, b])) =
      (Inr \<lparr>frame_Length = of_nat (length a), frame_Data = ?rd\<rparr>,
       wire (drop (length a) (?hb @ a @ b)))"
    using assms(3) by (simp add: la fits_def ReadFull_def wire_def)
  have "hd ?rd = CHR 0x00"
    using assms(1) by (simp add: hb hd_take)
  then have "?rd \<noteq> a" "?rd \<noteq> b"
    using assms(1,2,4) by auto
  with sh r show ?thesis by (metis frame.select_convs(2))
qed

theorem concurrent_writes_corrupt_witness:
  "\<exists>ws \<in> shuffles (write_steps ''rate limit exceeded'') (write_steps ''[lobby] bob: hi''). \<exists>f c'.
     ReadMessage (wire (concat ws)) = (Inr f, c') \<and>
     frame_Data f \<noteq> ''rate limit exceeded'' \<and> frame_Data f \<noteq> ''[lobby] bob: hi''"
  by (rule concurrent_writes_corrupt) (simp_all add: fits_def)

end
