(* ===== verification/Domain.thy ===== *)
theory Domain
  imports GoStd
begin

text \<open>
  internal/domain: users, rooms, messages, events, and the validation of names. The ID that
  \<open>uuid.New().String()\<close> draws and the clock reading of \<open>time.Now()\<close> are arguments of the
  constructors; \<open>CreatedAt\<close> is the wall clock.
\<close>

definition SystemSenderID :: string where
  "SystemSenderID = ''00000000-0000-0000-0000-000000000000''"

definition SystemUsername :: string where
  "SystemUsername = ''server''"

record message =
  msg_ID :: string
  SenderID :: string
  RoomID :: string
  From :: string
  Body :: string
  Delivered :: bool
  msg_CreatedAt :: time
  msg_DeletedAt :: "time option"

definition domain_NewMessage :: "string \<Rightarrow> time \<Rightarrow> string \<Rightarrow> string \<Rightarrow> string \<Rightarrow> string \<Rightarrow> message" where
  "domain_NewMessage uuid now senderID roomID from body =
     \<lparr>msg_ID = uuid, SenderID = senderID, RoomID = roomID, From = from, Body = body,
      Delivered = False, msg_CreatedAt = now, msg_DeletedAt = None\<rparr>"

record room =
  room_ID :: string
  Name :: string
  IsPrivate :: bool
  room_CreatedAt :: time
  room_DeletedAt :: "time option"

definition NewRoom :: "string \<Rightarrow> time \<Rightarrow> string \<Rightarrow> room" where
  "NewRoom uuid now name =
     \<lparr>room_ID = uuid, Name = name, IsPrivate = False, room_CreatedAt = now, room_DeletedAt = None\<rparr>"

record user =
  user_ID :: string
  Username :: string
  PasswordHash :: string
  user_CreatedAt :: time
  user_DeletedAt :: "time option"

definition NewUser :: "string \<Rightarrow> time \<Rightarrow> string \<Rightarrow> string \<Rightarrow> user" where
  "NewUser uuid now username hashedPassword =
     \<lparr>user_ID = uuid, Username = username, PasswordHash = hashedPassword,
      user_CreatedAt = now, user_DeletedAt = None\<rparr>"

text \<open>Events: one constructor per event type.\<close>

datatype event =
    UserJoinedEvent string string
  | UserLeftEvent string string
  | MessageSentEvent string string string
  | UserPresenceEvent string bool

section \<open>Validation\<close>

definition is_alnum :: "char \<Rightarrow> bool" where
  "is_alnum c \<longleftrightarrow> (let n = of_char c :: nat in
     97 \<le> n \<and> n \<le> 122 \<or> 65 \<le> n \<and> n \<le> 90 \<or> 48 \<le> n \<and> n \<le> 57)"

text \<open>\<open>^[a-zA-Z0-9_]+$\<close> and \<open>^[a-zA-Z0-9 _'-]+$\<close>; in Go's syntax \<open>$\<close> is the end of the text.\<close>

definition usernameRegex :: "string \<Rightarrow> bool" where
  "usernameRegex s \<longleftrightarrow> s \<noteq> [] \<and> list_all (\<lambda>c. is_alnum c \<or> c = CHR ''_'') s"

definition roomNameRegex :: "string \<Rightarrow> bool" where
  "roomNameRegex s \<longleftrightarrow>
     s \<noteq> [] \<and> list_all (\<lambda>c. is_alnum c \<or> c \<in> {CHR '' '', CHR ''_'', CHR 0x27, CHR ''-''}) s"

definition ValidateUsername :: "string \<Rightarrow> go_error option" where
  "ValidateUsername name =
     (if length name < 3 then Some (Err ''username must be at least 3 characters'')
      else if length name > 32 then Some (Err ''username must be at most 32 characters'')
      else if \<not> usernameRegex name
      then Some (Err ''username may only contain letters, numbers, and underscores'')
      else None)"

definition ValidateRoomName :: "string \<Rightarrow> go_error option" where
  "ValidateRoomName name =
     (if length name < 3 then Some (Err ''room name must be at least 3 characters'')
      else if length name > 32 then Some (Err ''room name must be at most 32 characters'')
      else if \<not> roomNameRegex name
      then Some (Err ''room name may only contain letters, numbers, spaces, underscores, hyphens, and apostrophes'')
      else None)"

section \<open>Lemmas\<close>

lemma name_char_printable: "is_alnum c \<or> c = CHR ''_'' \<Longrightarrow> printable c"
  by (auto simp: is_alnum_def printable_def Let_def)

lemma valid_username_word:
  assumes "ValidateUsername u = None"
  shows "is_word u"
proof -
  have u: "u \<noteq> []" "list_all (\<lambda>c. is_alnum c \<or> c = CHR ''_'') u"
    using assms by (auto simp: ValidateUsername_def usernameRegex_def split: if_splits)
  from u(2) have "list_all printable u"
    by (rule list.pred_mono_strong) (rule name_char_printable)
  with u(1) show ?thesis
    by (simp add: is_word_def)
qed

lemma valid_username_length: "ValidateUsername u = None \<Longrightarrow> 3 \<le> length u \<and> length u \<le> 32"
  by (auto simp: ValidateUsername_def split: if_splits)

lemma valid_username_nonempty: "ValidateUsername u = None \<Longrightarrow> u \<noteq> []"
  by (auto dest: valid_username_length)

lemma ValidateRoomName_None_iff:
  "ValidateRoomName s = None \<longleftrightarrow>
   3 \<le> length s \<and> length s \<le> 32 \<and> (\<forall>c \<in> set s. is_alnum c \<or> c \<in> {CHR '' '', CHR ''_'', CHR 0x27, CHR ''-''})"
  by (auto simp: ValidateRoomName_def roomNameRegex_def list_all_iff)

section \<open>Properties\<close>

text \<open>
  \<open>ValidateUsername\<close> accepts exactly the names of 3 to 32 bytes that consist of letters,
  digits and underscores, and an accepted name is a single word: \<open>strings.Fields\<close> returns it
  unchanged as the only field and \<open>strings.TrimSpace\<close> removes nothing.
\<close>

theorem ValidateUsername_spec:
  "(ValidateUsername u = None \<longleftrightarrow>
      3 \<le> length u \<and> length u \<le> 32 \<and> list_all (\<lambda>c. is_alnum c \<or> c = CHR ''_'') u) \<and>
   (ValidateUsername u = None \<longrightarrow> Fields u = [u] \<and> TrimSpace u = u)"
proof
  show "ValidateUsername u = None \<longleftrightarrow>
      3 \<le> length u \<and> length u \<le> 32 \<and> list_all (\<lambda>c. is_alnum c \<or> c = CHR ''_'') u"
    by (auto simp: ValidateUsername_def usernameRegex_def)
  show "ValidateUsername u = None \<longrightarrow> Fields u = [u] \<and> TrimSpace u = u"
    using Fields_Join [of "[u]"] by (auto dest!: valid_username_word simp: is_word_def TrimSpace_word)
qed

theorem ValidateUsername_spec_witness:
  "ValidateUsername ''alice_1'' = None \<and> Fields ''alice_1'' = [''alice_1'']"
proof -
  have "ValidateUsername ''alice_1'' = None"
    by (simp add: ValidateUsername_def usernameRegex_def is_alnum_def)
  with ValidateUsername_spec [of "''alice_1''"] show ?thesis by blast
qed

end
