(* ===== verification/Limiter.thy ===== *)
theory Limiter
  imports Prelude
begin

text \<open>
  The interface both rate-limiter registries of internal/ratelimit provide: one limiter per key,
  created on the key's first request, all with the parameters of the registry. The locale states
  what a client may rely on (a request changes the limiter of its own key and nothing else), and
  proves once that the decisions for a key are those of a lone limiter fed with that key's
  requests. SlidingWindow and TokenBucket interpret it on the code's two registries.
\<close>

text \<open>Runs of requests \<open>(key, input)\<close> against a registry, and of inputs against one limiter.\<close>

fun keyed_run :: "('i \<Rightarrow> 'k \<Rightarrow> 'r \<Rightarrow> bool \<times> 'r) \<Rightarrow> ('k \<times> 'i) list \<Rightarrow> 'r \<Rightarrow> bool list \<times> 'r" where
  "keyed_run allow [] r = ([], r)"
| "keyed_run allow ((k, i) # xs) r =
     (let (ok, r) = allow i k r; (oks, r) = keyed_run allow xs r in (ok # oks, r))"

fun single_run :: "('i \<Rightarrow> 'l option \<Rightarrow> bool \<times> 'l) \<Rightarrow> 'i list \<Rightarrow> 'l option \<Rightarrow> bool list" where
  "single_run step [] l = []"
| "single_run step (i # is) l = (case step i l of (ok, l') \<Rightarrow> ok # single_run step is (Some l'))"

definition inputs_of :: "'k \<Rightarrow> ('k \<times> 'i) list \<Rightarrow> 'i list" where
  "inputs_of k xs = map snd (filter (\<lambda>x. fst x = k) xs)"

definition decisions_of :: "'k \<Rightarrow> ('k \<times> 'i) list \<Rightarrow> bool list \<Rightarrow> bool list" where
  "decisions_of k xs oks = map snd (filter (\<lambda>p. fst (fst p) = k) (zip xs oks))"

lemma inputs_of_simps [simp]:
  "inputs_of k [] = []"
  "inputs_of k ((k', i) # xs) = (if k' = k then [i] else []) @ inputs_of k xs"
  by (simp_all add: inputs_of_def)

lemma decisions_of_simps [simp]:
  "decisions_of k [] oks = []"
  "decisions_of k ((k', i) # xs) (ok # oks) = (if k' = k then [ok] else []) @ decisions_of k xs oks"
  by (simp_all add: decisions_of_def)

locale keyed_limiter =
  fixes allow :: "'i \<Rightarrow> 'k \<Rightarrow> 'r \<Rightarrow> bool \<times> 'r"
    and get :: "'r \<Rightarrow> 'k \<Rightarrow> 'l option"
    and par :: "'r \<Rightarrow> 'p"
    and step :: "'p \<Rightarrow> 'i \<Rightarrow> 'l option \<Rightarrow> bool \<times> 'l"
  assumes allow_decides: "fst (allow i k r) = fst (step (par r) i (get r k))"
    and allow_stores: "get (snd (allow i k r)) k = Some (snd (step (par r) i (get r k)))"
    and allow_others: "k' \<noteq> k \<Longrightarrow> get (snd (allow i k r)) k' = get r k'"
    and allow_par: "par (snd (allow i k r)) = par r"
begin

lemma keyed_run_isolated:
  "decisions_of k xs (fst (keyed_run allow xs r)) = single_run (step (par r)) (inputs_of k xs) (get r k)"
proof (induction xs arbitrary: r)
  case Nil
  then show ?case by simp
next
  case (Cons x xs)
  obtain k' i where x: "x = (k', i)" by fastforce
  let ?r = "snd (allow i k' r)"
  have "fst (keyed_run allow (x # xs) r) = fst (allow i k' r) # fst (keyed_run allow xs ?r)"
    by (simp add: x split: prod.splits)
  then have "decisions_of k (x # xs) (fst (keyed_run allow (x # xs) r)) =
      (if k' = k then [fst (allow i k' r)] else []) @ single_run (step (par r)) (inputs_of k xs) (get ?r k)"
    using Cons [of ?r] by (simp add: x allow_par)
  then show ?case
    by (simp add: x allow_decides allow_stores allow_others split: prod.splits)
qed

end

end
