(* ===== verification/SlidingWindow.thy ===== *)
theory SlidingWindow
  imports Limiter
begin

text \<open>
  internal/ratelimit/sliding_window.go: a rate limiter that keeps the times of the requests it
  admitted, and the registry of one limiter per key.

  \<open>Allow\<close> reads the clock twice: \<open>now1\<close> fixes the cutoff, \<open>now2\<close> is the time recorded. Both
  readings are arguments. The mutex makes every call one step; the clock is monotonic, so a run
  is a list of readings in ascending order.
\<close>

record sliding_window =
  timestamps :: "time list"
  limit :: int
  window :: int

definition NewSlidingWindow :: "int \<Rightarrow> int \<Rightarrow> sliding_window" where
  "NewSlidingWindow lim win = \<lparr>timestamps = [], limit = lim, window = win\<rparr>"

fun evict :: "time \<Rightarrow> time list \<Rightarrow> time list" where
  "evict cutoff [] = []"
| "evict cutoff (t # ts) = (if t < cutoff then evict cutoff ts else t # ts)"

definition sw_Allow :: "time \<times> time \<Rightarrow> sliding_window \<Rightarrow> bool \<times> sliding_window" where
  "sw_Allow clk sw =
     (case clk of (now1, now2) \<Rightarrow>
        let cutoff = time_add now1 (- window sw);
            sw = sw\<lparr>timestamps := evict cutoff (timestamps sw)\<rparr>
        in if int (length (timestamps sw)) \<ge> limit sw then (False, sw)
           else (True, sw\<lparr>timestamps := timestamps sw @ [now2]\<rparr>))"

record sw_registry =
  limiters :: "(string, sliding_window) fmap"
  reg_limit :: int
  reg_window :: int

definition NewRegistry :: "int \<Rightarrow> int \<Rightarrow> sw_registry" where
  "NewRegistry lim win = \<lparr>limiters = fmempty, reg_limit = lim, reg_window = win\<rparr>"

definition Registry_Allow :: "time \<times> time \<Rightarrow> string \<Rightarrow> sw_registry \<Rightarrow> bool \<times> sw_registry" where
  "Registry_Allow clk key r =
     (let (sw, r) = (case fmlookup (limiters r) key of
                       Some sw \<Rightarrow> (sw, r)
                     | None \<Rightarrow> let sw = NewSlidingWindow (reg_limit r) (reg_window r)
                               in (sw, r\<lparr>limiters := fmupd key sw (limiters r)\<rparr>));
          (ok, sw) = sw_Allow clk sw
      in (ok, r\<lparr>limiters := fmupd key sw (limiters r)\<rparr>))"

section \<open>Runs and admissions\<close>

text \<open>
  A run of \<open>Allow\<close> calls with the clock readings of each. \<open>admitted\<close> lists the times recorded for
  the calls that returned true. \<open>clock_from t clks\<close>: the readings never go back and start at \<open>t\<close>.
\<close>

fun sw_run :: "(time \<times> time) list \<Rightarrow> sliding_window \<Rightarrow> bool list \<times> sliding_window" where
  "sw_run [] sw = ([], sw)"
| "sw_run (clk # clks) sw =
     (let (ok, sw) = sw_Allow clk sw; (oks, sw) = sw_run clks sw in (ok # oks, sw))"

fun clock_from :: "time \<Rightarrow> (time \<times> time) list \<Rightarrow> bool" where
  "clock_from t [] = True"
| "clock_from t ((a, b) # clks) = (t \<le> a \<and> a \<le> b \<and> clock_from b clks)"

definition admitted :: "(time \<times> time) list \<Rightarrow> bool list \<Rightarrow> time list" where
  "admitted clks oks = map (snd \<circ> fst) (filter snd (zip clks oks))"

definition within :: "time \<Rightarrow> time \<Rightarrow> time list \<Rightarrow> time list" where
  "within a b ts = filter (\<lambda>t. a \<le> t \<and> t \<le> b) ts"

lemma admitted_simps [simp]:
  "admitted [] oks = []"
  "admitted (clk # clks) (ok # oks) = (if ok then [snd clk] else []) @ admitted clks oks"
  by (simp_all add: admitted_def)

lemma evict_dropWhile: "evict cutoff ts = dropWhile (\<lambda>t. t < cutoff) ts"
  by (induction ts) auto

lemma evict_filter: "sorted ts \<Longrightarrow> evict cutoff ts = filter (\<lambda>t. cutoff \<le> t) ts"
  by (induction ts) (auto simp: not_less intro!: filter_True [symmetric] intro: order_trans)

section \<open>The admitted history\<close>

text \<open>
  The history invariant: \<open>adm\<close> is everything admitted so far and \<open>t\<close> the last clock reading. The
  limiter holds a suffix of the history, and what it has dropped is older than its window.
\<close>

definition history :: "time list \<Rightarrow> time \<Rightarrow> sliding_window \<Rightarrow> bool" where
  "history adm t sw \<longleftrightarrow>
     (\<exists>gone. adm = gone @ timestamps sw \<and> (\<forall>g \<in> set gone. g < time_add t (- window sw))) \<and>
     sorted adm \<and> (\<forall>a \<in> set adm. a \<le> t)"

text \<open>Any \<open>lim + 1\<close> consecutive admissions are more than one window apart.\<close>

definition spaced :: "nat \<Rightarrow> int \<Rightarrow> time list \<Rightarrow> bool" where
  "spaced lim win adm \<longleftrightarrow> (\<forall>i. i + lim < length adm \<longrightarrow> time_add (adm ! i) win < adm ! (i + lim))"

lemma history_New: "history [] t (NewSlidingWindow lim win)"
  by (simp add: history_def NewSlidingWindow_def)

lemma sw_Allow_fields:
  "limit (snd (sw_Allow clk sw)) = limit sw \<and> window (snd (sw_Allow clk sw)) = window sw"
  by (cases clk) (simp add: sw_Allow_def Let_def)

lemma history_window:
  assumes "history adm t sw" and "t \<le> a"
  shows "filter (\<lambda>x. time_add a (- window sw) \<le> x) adm = evict (time_add a (- window sw)) (timestamps sw)"
proof -
  obtain gone where adm: "adm = gone @ timestamps sw"
    and gone: "\<forall>g \<in> set gone. g < time_add t (- window sw)" and s: "sorted adm"
    using assms(1) unfolding history_def by blast
  have "filter (\<lambda>x. time_add a (- window sw) \<le> x) gone = []"
    using gone assms(2) by (fastforce simp: filter_empty_conv time_simps)
  moreover have "sorted (timestamps sw)" using s adm by (simp add: sorted_append)
  ultimately show ?thesis by (simp add: adm evict_filter)
qed

lemma history_Allow:
  assumes "history adm t sw" and "t \<le> a" and "a \<le> b" and "0 \<le> window sw"
    and "sw_Allow (a, b) sw = (ok, sw')"
  shows "history (adm @ (if ok then [b] else [])) b sw'"
proof -
  let ?cut = "time_add a (- window sw)" and ?ts = "timestamps sw"
  obtain gone where adm: "adm = gone @ ?ts"
    and gone: "\<forall>g \<in> set gone. g < time_add t (- window sw)"
    and s: "sorted adm" and le: "\<forall>x \<in> set adm. x \<le> t"
    using assms(1) unfolding history_def by blast
  have sw': "sw' = sw\<lparr>timestamps := evict ?cut ?ts @ (if ok then [b] else [])\<rparr>"
    using assms(5) by (auto simp: sw_Allow_def Let_def split: if_splits)
  have "\<forall>g \<in> set (gone @ takeWhile (\<lambda>x. x < ?cut) ?ts). g < time_add b (- window sw)"
    using gone assms(2,3) by (fastforce simp: time_simps dest: set_takeWhileD)
  moreover have "gone @ takeWhile (\<lambda>x. x < ?cut) ?ts @ evict ?cut ?ts = adm"
    by (simp add: adm evict_dropWhile)
  moreover have "sorted (adm @ [b])" "\<forall>x \<in> set (adm @ [b]). x \<le> b"
    using s le assms(2,3) by (auto simp: sorted_append intro: order_trans)
  ultimately show ?thesis
    using s unfolding history_def sw'
    by (intro conjI exI [of _ "gone @ takeWhile (\<lambda>x. x < ?cut) ?ts"])
      (auto split: if_splits simp: sorted_append)
qed

lemma sorted_filter_takeWhile: "sorted xs \<Longrightarrow> filter (\<lambda>t. t \<le> y) xs = takeWhile (\<lambda>t. t \<le> (y :: time)) xs"
proof (induction xs)
  case (Cons a xs)
  then show ?case
    by (cases xs) (auto simp: filter_empty_conv not_le intro: less_le_trans order_trans)
qed simp

lemma spaced_Allow:
  assumes h: "history adm t sw" and sp: "spaced (nat (limit sw)) (window sw) adm"
    and clk: "t \<le> a" "a \<le> b" and ok: "fst (sw_Allow (a, b) sw)"
  shows "spaced (nat (limit sw)) (window sw) (adm @ [b])"
  unfolding spaced_def
proof (intro allI impI)
  fix i assume i: "i + nat (limit sw) < length (adm @ [b])"
  let ?cut = "time_add a (- window sw)"
  let ?kept = "evict ?cut (timestamps sw)"
  have few: "int (length ?kept) < limit sw"
    using ok by (auto simp: sw_Allow_def Let_def split: if_splits)
  show "time_add ((adm @ [b]) ! i) (window sw) < (adm @ [b]) ! (i + nat (limit sw))"
  proof (cases "i + nat (limit sw) < length adm")
    case True
    then show ?thesis using sp by (simp add: spaced_def nth_append)
  next
    case False
    with i few have last: "i + nat (limit sw) = length adm" and i': "i < length adm" by auto
    have "sorted adm" using h by (simp add: history_def)
    have "\<not> ?cut \<le> adm ! i"
    proof
      assume "?cut \<le> adm ! i"
      moreover have "sorted (adm ! i # drop (Suc i) adm)"
        using \<open>sorted adm\<close> i' by (simp add: Cons_nth_drop_Suc sorted_wrt_drop)
      ultimately have "\<forall>x \<in> set (drop i adm). ?cut \<le> x"
        using i' by (auto simp: Cons_nth_drop_Suc [symmetric] intro: order_trans)
      then have "length (drop i adm) \<le> length (filter (\<lambda>x. ?cut \<le> x) adm)"
        by (metis append_take_drop_id filter_True filter_append le_add2 length_append)
      then show False
        using history_window [OF h clk(1)] few last by simp
    qed
    with clk last i' show ?thesis
      by (simp add: nth_append time_simps)
  qed
qed

lemma sw_run_history:
  assumes "history adm t sw" and "spaced (nat (limit sw)) (window sw) adm" and "0 \<le> window sw"
    and "clock_from t clks" and "sw_run clks sw = (oks, sw')"
  shows "\<exists>t'. history (adm @ admitted clks oks) t' sw' \<and> spaced (nat (limit sw)) (window sw) (adm @ admitted clks oks) \<and>
    limit sw' = limit sw \<and> window sw' = window sw \<and> (\<forall>u. clock_from t (clks @ [u]) \<longrightarrow> t' \<le> fst u)"
  using assms
proof (induction clks arbitrary: adm t sw oks)
  case Nil
  then show ?case by fastforce
next
  case (Cons clk clks)
  obtain a b where clk: "clk = (a, b)" by fastforce
  obtain ok sw1 oks' where a: "sw_Allow (a, b) sw = (ok, sw1)"
    and r: "sw_run clks sw1 = (oks', sw')" and oks: "oks = ok # oks'"
    using Cons.prems(5) by (auto simp: clk split: prod.splits)
  have le: "t \<le> a" "a \<le> b" "clock_from b clks" using Cons.prems(4) by (simp_all add: clk)
  have f: "limit sw1 = limit sw" "window sw1 = window sw"
    using sw_Allow_fields [of "(a, b)" sw] by (simp_all add: a)
  let ?adm = "adm @ (if ok then [b] else [])"
  have "history ?adm b sw1"
    by (rule history_Allow [OF Cons.prems(1) le(1,2) Cons.prems(3) a])
  moreover have "spaced (nat (limit sw1)) (window sw1) ?adm"
    using Cons.prems(1,2) le spaced_Allow [of adm t sw a b] by (auto simp: a f)
  ultimately obtain t' where "history (?adm @ admitted clks oks') t' sw' \<and>
      spaced (nat (limit sw1)) (window sw1) (?adm @ admitted clks oks') \<and>
      limit sw' = limit sw1 \<and> window sw' = window sw1 \<and> (\<forall>u. clock_from b (clks @ [u]) \<longrightarrow> t' \<le> fst u)"
    using Cons.IH [OF _ _ _ le(3) r] Cons.prems(3) f by metis
  then show ?case
    by (intro exI [of _ t']) (auto simp: clk oks f)
qed

lemma sw_run_New:
  assumes "clock_from t clks" and "0 \<le> win" and "sw_run clks (NewSlidingWindow lim win) = (oks, sw)"
  shows "\<exists>t'. history (admitted clks oks) t' sw \<and> spaced (nat lim) win (admitted clks oks) \<and>
    limit sw = lim \<and> window sw = win \<and> (\<forall>u. clock_from t (clks @ [u]) \<longrightarrow> t' \<le> fst u)"
  using sw_run_history [OF history_New [of t lim win] _ _ assms(1,3)] assms(2)
  by (simp add: spaced_def NewSlidingWindow_def)

lemma spaced_within:
  assumes "sorted adm" and "spaced lim win adm"
  shows "length (within x (time_add x win) adm) \<le> lim"
proof (rule ccontr)
  let ?y = "time_add x win"
  let ?m = "length (takeWhile (\<lambda>t. t < x) adm)"
  let ?f = "within x ?y adm"
  assume "\<not> length ?f \<le> lim"
  then have long: "lim < length ?f" by simp
  have "?f = filter (\<lambda>t. t \<le> ?y) (dropWhile (\<lambda>t. t < x) adm)"
    using assms(1) evict_filter [of adm x]
    by (simp add: within_def evict_dropWhile conj_commute flip: filter_filter)
  also have "\<dots> = takeWhile (\<lambda>t. t \<le> ?y) (drop ?m adm)"
    using assms(1) by (simp add: dropWhile_eq_drop sorted_filter_takeWhile)
  finally have f: "?f = takeWhile (\<lambda>t. t \<le> ?y) (drop ?m adm)" .
  have nth: "?f ! i = adm ! (?m + i)" if "i \<le> lim" for i
    using long that length_takeWhile_le [of "\<lambda>t. t \<le> ?y" "drop ?m adm"]
    by (simp add: f takeWhile_nth)
  have "?m + lim < length adm"
    using long length_takeWhile_le [of "\<lambda>t. t \<le> ?y" "drop ?m adm"] by (simp add: f)
  then have "time_add (?f ! 0) win < ?f ! lim"
    using assms(2) nth by (simp add: spaced_def)
  moreover have "?f ! 0 \<in> set ?f" "?f ! lim \<in> set ?f"
    using long by (auto intro: nth_mem)
  then have "x \<le> ?f ! 0" "?f ! lim \<le> ?y"
    by (simp_all add: within_def)
  ultimately show False by (auto simp: time_simps)
qed

section \<open>The registry\<close>

definition sw_step :: "int \<times> int \<Rightarrow> time \<times> time \<Rightarrow> sliding_window option \<Rightarrow> bool \<times> sliding_window" where
  "sw_step p clk l = sw_Allow clk (case l of Some sw \<Rightarrow> sw | None \<Rightarrow> NewSlidingWindow (fst p) (snd p))"

interpretation sw_reg: keyed_limiter Registry_Allow "\<lambda>r. fmlookup (limiters r)"
    "\<lambda>r. (reg_limit r, reg_window r)" sw_step
  by unfold_locales
    (auto simp: Registry_Allow_def sw_step_def Let_def split: prod.splits option.splits)

lemma single_run_sw:
  "single_run (sw_step p) clks (Some sw) = fst (sw_run clks sw)"
  by (induction clks arbitrary: sw) (auto simp: sw_step_def split: prod.splits)

lemma single_run_sw_New:
  "single_run (sw_step (lim, win)) clks None = fst (sw_run clks (NewSlidingWindow lim win))"
  by (cases clks) (auto simp: sw_step_def single_run_sw [of "(lim, win)"] split: prod.splits)

lemma registry_decisions:
  "decisions_of k xs (fst (keyed_run Registry_Allow xs (NewRegistry lim win))) =
   fst (sw_run (inputs_of k xs) (NewSlidingWindow lim win))"
  by (simp add: sw_reg.keyed_run_isolated single_run_sw_New) (simp add: NewRegistry_def single_run_sw_New)

lemma clock_from_le: "clock_from t clks \<Longrightarrow> s \<le> t \<Longrightarrow> clock_from s clks"
  by (cases clks) auto

lemma clock_from_inputs_of: "clock_from t (map snd xs) \<Longrightarrow> clock_from t (inputs_of k xs)"
proof (induction xs arbitrary: t)
  case (Cons x xs)
  obtain k' a b where x: "x = (k', a, b)" by (cases x) auto
  then have "t \<le> a" "a \<le> b" "clock_from b (inputs_of k xs)"
    using Cons by auto
  then show ?case by (auto simp: x intro: clock_from_le)
qed simp

section \<open>Properties\<close>

text \<open>
  C9. Safety of the sliding window: in a run of \<open>Allow\<close> calls on a fresh limiter, with clock
  readings that never go back, no closed interval as long as the window holds more than
  \<open>limit\<close> admitted requests, wherever the interval is placed.
\<close>

theorem SlidingWindow_limit:
  assumes "clock_from t clks" and "0 \<le> win"
  shows "length (within x (time_add x win) (admitted clks (fst (sw_run clks (NewSlidingWindow lim win))))) \<le> nat lim"
proof -
  obtain oks sw where r: "sw_run clks (NewSlidingWindow lim win) = (oks, sw)" by fastforce
  from sw_run_New [OF assms r] obtain t' where "history (admitted clks oks) t' sw"
    and "spaced (nat lim) win (admitted clks oks)" by blast
  then show ?thesis
    using spaced_within [of "admitted clks oks" "nat lim" win x] by (simp add: r history_def)
qed

theorem SlidingWindow_limit_witness:
  "length (within (Time 0) (time_add (Time 0) 10)
     (admitted [(Time 0, Time 1), (Time 2, Time 2), (Time 5, Time 6)]
       (fst (sw_run [(Time 0, Time 1), (Time 2, Time 2), (Time 5, Time 6)] (NewSlidingWindow 2 10))))) \<le> nat 2"
  by (rule SlidingWindow_limit [of "Time 0"]) (simp_all add: less_eq_time_def)

text \<open>
  C10. Exactness of the sliding window: after any such run, the next call returns true if and
  only if fewer than \<open>limit\<close> requests were admitted in the closed window that ends at its first
  clock reading. The queue of timestamps thus implements the specification that counts over the
  whole history.
\<close>

theorem SlidingWindow_exact:
  assumes "clock_from t (clks @ [(a, b)])" and "0 \<le> win"
    and "sw_run clks (NewSlidingWindow lim win) = (oks, sw)"
  shows "fst (sw_Allow (a, b) sw) \<longleftrightarrow>
    int (length (within (time_add a (- win)) a (admitted clks oks))) < lim"
proof -
  have "clock_from t clks"
    using assms(1) by (induction clks arbitrary: t) (auto split: prod.splits)
  from sw_run_New [OF this assms(2,3)] assms(1) obtain t' where
    h: "history (admitted clks oks) t' sw" and f: "limit sw = lim" "window sw = win" and "t' \<le> a"
    by fastforce
  then have "\<forall>x \<in> set (admitted clks oks). x \<le> a"
    by (auto simp: history_def intro: order_trans)
  then have "within (time_add a (- win)) a (admitted clks oks) =
      evict (time_add a (- win)) (timestamps sw)"
    unfolding within_def history_window [OF h \<open>t' \<le> a\<close>, unfolded f, symmetric]
    by (intro filter_cong) auto
  then show ?thesis
    by (simp add: sw_Allow_def Let_def f)
qed

theorem SlidingWindow_exact_witness:
  "fst (sw_Allow (Time 5, Time 5) (snd (sw_run [(Time 0, Time 1)] (NewSlidingWindow 1 10)))) =
   (int (length (within (time_add (Time 5) (- 10)) (Time 5)
      (admitted [(Time 0, Time 1)] (fst (sw_run [(Time 0, Time 1)] (NewSlidingWindow 1 10)))))) < 1)"
proof (rule SlidingWindow_exact)
  show "clock_from (Time 0) ([(Time 0, Time 1)] @ [(Time 5, Time 5)])"
    by (simp add: less_eq_time_def)
qed simp_all

text \<open>
  The registry isolates its keys: over any interleaving of requests for many keys, the
  decisions for one key are those of a lone limiter given that key's requests only, so each key
  (in the gateway: each IP address, 3 registrations per hour) has its own limit of \<open>limit\<close>
  admissions in any window.
\<close>

theorem Registry_per_key:
  fixes lim win :: int and xs :: "(string \<times> time \<times> time) list"
  assumes "clock_from t (map snd xs)" and "0 \<le> win"
  defines "oks \<equiv> fst (keyed_run Registry_Allow xs (NewRegistry lim win))"
  shows "decisions_of k xs oks = fst (sw_run (inputs_of k xs) (NewSlidingWindow lim win)) \<and>
    length (within x (time_add x win) (admitted (inputs_of k xs) (decisions_of k xs oks))) \<le> nat lim"
proof -
  obtain oks' sw where r: "sw_run (inputs_of k xs) (NewSlidingWindow lim win) = (oks', sw)" by fastforce
  have d: "decisions_of k xs oks = oks'"
    by (simp add: oks_def registry_decisions r)
  from sw_run_New [OF clock_from_inputs_of [OF assms(1)] assms(2) r] obtain t' where
    "history (admitted (inputs_of k xs) oks') t' sw" "spaced (nat lim) win (admitted (inputs_of k xs) oks')"
    by blast
  then show ?thesis
    using spaced_within [of "admitted (inputs_of k xs) oks'" "nat lim" win x]
    by (simp add: d r history_def)
qed

theorem Registry_per_key_witness:
  "decisions_of ''10.0.0.1''
     [(''10.0.0.1'', Time 0, Time 0), (''10.0.0.2'', Time 1, Time 1), (''10.0.0.1'', Time 2, Time 2)]
     (fst (keyed_run Registry_Allow
       [(''10.0.0.1'', Time 0, Time 0), (''10.0.0.2'', Time 1, Time 1), (''10.0.0.1'', Time 2, Time 2)]
       (NewRegistry 1 3600000000000))) =
   fst (sw_run [(Time 0, Time 0), (Time 2, Time 2)] (NewSlidingWindow 1 3600000000000))"
  using Registry_per_key [of "Time 0"
      "[(''10.0.0.1'', Time 0, Time 0), (''10.0.0.2'', Time 1, Time 1), (''10.0.0.1'', Time 2, Time 2)]"
      3600000000000 "''10.0.0.1''" 1]
  by (simp add: less_eq_time_def)

end
