(* ===== verification/Float64.thy ===== *)
theory Float64
  imports Complex_Main "HOL-Library.Log_Nat"
begin

text \<open>
  Go's \<open>float64\<close> arithmetic on finite values. A value is the rational it denotes, and \<open>fl\<close> rounds
  an exact result to the nearest double, ties to even: 53 significant bits, exponents down to
  the subnormals. Every operation of the source is the exact operation followed by \<open>fl\<close>, as on
  amd64, where the compiler does not fuse a multiplication with an addition. Overflow to
  infinity is left out: the operations of the program compare a sum with a finite capacity and
  replace it by the capacity, which does the same to a huge rational as to infinity.
\<close>

section \<open>The exponent of a positive rational\<close>

definition flog2 :: "rat \<Rightarrow> int" where
  "flog2 x = (case quotient_of x of (a, b) \<Rightarrow>
     let k = bitlen a - bitlen b in if 2 powi k \<le> x then k else k - 1)"

lemma bitlen_powi:
  assumes "0 < a"
  shows "2 powi (bitlen a - 1) \<le> (of_int a :: rat)" "(of_int a :: rat) < 2 powi (bitlen a)"
proof -
  have pos: "1 \<le> bitlen a" using assms by (simp add: bitlen_alt_def)
  have b: "2 ^ nat (bitlen a - 1) \<le> a" "a < 2 ^ nat (bitlen a)"
    using bitlen_bounds [OF assms] by simp_all
  have "(of_int (2 ^ nat (bitlen a - 1)) :: rat) \<le> of_int a" "(of_int a :: rat) < of_int (2 ^ nat (bitlen a))"
    using b by (simp_all only: of_int_le_iff of_int_less_iff)
  then show "2 powi (bitlen a - 1) \<le> (of_int a :: rat)" "(of_int a :: rat) < 2 powi (bitlen a)"
    using pos by (simp_all add: power_int_def)
qed

lemma flog2_bounds:
  assumes "0 < x"
  shows "2 powi (flog2 x) \<le> x" "x < 2 powi (flog2 x + 1)"
proof -
  obtain a b where q: "quotient_of x = (a, b)" by fastforce
  have b: "0 < b" and x: "x = of_int a / of_int b"
    using q by (simp_all add: quotient_of_denom_pos quotient_of_div)
  with assms have a: "0 < a" by (simp add: zero_less_divide_iff)
  let ?la = "bitlen a" and ?lb = "bitlen b"
  have "x < 2 powi ?la / 2 powi (?lb - 1)"
    unfolding x using bitlen_powi [OF a] bitlen_powi [OF b] a b
    by (intro frac_less) (auto simp: zero_less_power_int)
  also have "\<dots> = 2 powi (?la - ?lb + 1)"
    by (simp add: algebra_simps flip: power_int_diff)
  finally have up: "x < 2 powi (?la - ?lb + 1)" .
  have "2 powi (?la - 1) / 2 powi ?lb < x"
    unfolding x using bitlen_powi [OF a] bitlen_powi [OF b] a b
    by (intro frac_less2) (auto simp: zero_less_power_int)
  also have "2 powi (?la - 1) / 2 powi ?lb = (2 powi (?la - ?lb - 1) :: rat)"
    by (simp add: algebra_simps flip: power_int_diff)
  finally have lo: "2 powi (?la - ?lb - 1) < x" .
  show "2 powi (flog2 x) \<le> x" "x < 2 powi (flog2 x + 1)"
    using up lo by (auto simp: flog2_def q Let_def)
qed

lemma powi_le_D: "(2 powi m :: rat) < 2 powi n \<Longrightarrow> m < n"
  by (metis linorder_not_less numeral_le_iff one_le_numeral power_int_increasing)

lemma flog2_mono: "0 < x \<Longrightarrow> x \<le> y \<Longrightarrow> flog2 x \<le> flog2 y"
proof -
  assume "0 < x" "x \<le> y"
  then have "2 powi (flog2 x) < (2 powi (flog2 y + 1) :: rat)"
    using flog2_bounds [of x] flog2_bounds [of y] by linarith
  then show ?thesis using powi_le_D by fastforce
qed

section \<open>Rounding\<close>

definition round_even :: "rat \<Rightarrow> int" where
  "round_even r = (let f = \<lfloor>r\<rfloor>; d = r - of_int f in
     if d < 1/2 then f else if d > 1/2 then f + 1 else if even f then f else f + 1)"

definition ulp_exp :: "rat \<Rightarrow> int" where
  "ulp_exp x = max (flog2 x - 52) (-1074)"

definition ulp :: "rat \<Rightarrow> rat" where
  "ulp x = 2 powi (ulp_exp x)"

definition fl :: "rat \<Rightarrow> rat" where
  "fl x = (if x = 0 then 0 else of_int (round_even (x / ulp \<bar>x\<bar>)) * ulp \<bar>x\<bar>)"

lemma round_even_err: "\<bar>of_int (round_even r) - r\<bar> \<le> 1/2"
  unfolding round_even_def Let_def by (simp add: abs_if) linarith

lemma round_even_int [simp]: "round_even (of_int n) = n"
  by (simp add: round_even_def)

lemma round_even_mono:
  assumes "r \<le> s"
  shows "round_even r \<le> round_even s"
proof (cases "\<lfloor>r\<rfloor> = \<lfloor>s\<rfloor>")
  case True
  with assms show ?thesis by (auto simp: round_even_def Let_def)
next
  case False
  then have "\<lfloor>r\<rfloor> + 1 \<le> \<lfloor>s\<rfloor>" using floor_mono [OF assms] by linarith
  then show ?thesis by (auto simp: round_even_def Let_def)
qed

lemma round_even_le: "r \<le> of_int n \<Longrightarrow> round_even r \<le> n"
  using round_even_mono [of r "of_int n"] by simp

lemma round_even_ge: "of_int n \<le> r \<Longrightarrow> n \<le> round_even r"
  using round_even_mono [of "of_int n" r] by simp

lemma ulp_pos [simp]: "0 < ulp x"
  by (simp add: ulp_def zero_less_power_int)

lemma ulp_nonzero [simp]: "ulp x \<noteq> 0"
  using ulp_pos [of x] by linarith

lemma fl_0 [simp]: "fl 0 = 0"
  by (simp add: fl_def)

lemma fl_pos: "0 < x \<Longrightarrow> fl x = of_int (round_even (x / ulp x)) * ulp x"
  by (simp add: fl_def)

lemma fl_nonneg: "0 \<le> x \<Longrightarrow> 0 \<le> fl x"
  using round_even_ge [of 0 "x / ulp x"] by (cases "x = 0") (auto simp: fl_pos less_imp_le)

text \<open>Rounding is monotonic: within a binade by \<open>round_even\<close>, across binades at a power of two.\<close>

lemma powi_int: "0 \<le> k \<Longrightarrow> \<exists>n. (2 powi k :: rat) = of_int n"
  by (metis of_int_numeral of_int_power power_int_def)

lemma fl_mono:
  assumes "0 \<le> x" and "x \<le> y"
  shows "fl x \<le> fl y"
proof (cases "x = 0")
  case True
  then show ?thesis using assms fl_nonneg [of y] by simp
next
  case False
  with assms have x: "0 < x" and y: "0 < y" by auto
  show ?thesis
  proof (cases "ulp_exp x = ulp_exp y")
    case True
    then have u: "ulp x = ulp y" by (simp add: ulp_def)
    have "round_even (x / ulp y) \<le> round_even (y / ulp y)"
      using assms(2) by (intro round_even_mono divide_right_mono) (simp_all add: less_imp_le)
    then show ?thesis
      by (simp add: fl_pos x y u)
  next
    case False
    with flog2_mono [OF x assms(2)] have e: "ulp_exp x < ulp_exp y" "flog2 x + 1 \<le> flog2 y"
      "ulp_exp y = flog2 y - 52"
      by (auto simp: ulp_exp_def max_def split: if_splits)
    let ?B = "2 powi (flog2 y) :: rat"
    obtain n m where n: "?B / ulp x = of_int n" and m: "?B / ulp y = of_int m"
      using powi_int [of "flog2 y - ulp_exp x"] powi_int [of "flog2 y - ulp_exp y"] e
      by (auto simp: ulp_def power_int_diff)
    have "x \<le> 2 powi (flog2 x + 1)" using flog2_bounds [OF x] by simp
    also have "\<dots> \<le> ?B" using e by (intro power_int_increasing) auto
    finally have "x / ulp x \<le> of_int n"
      unfolding n [symmetric] by (intro divide_right_mono) (simp_all add: less_imp_le)
    then have "of_int (round_even (x / ulp x)) * ulp x \<le> of_int n * ulp x"
      using round_even_le by (simp add: less_imp_le)
    also have "\<dots> = ?B" by (simp flip: n)
    also have "\<dots> = of_int m * ulp y" by (simp flip: m)
    also have "\<dots> \<le> of_int (round_even (y / ulp y)) * ulp y"
    proof (intro mult_right_mono)
      have "of_int m \<le> y / ulp y"
        unfolding m [symmetric] using flog2_bounds(1) [OF y] by (intro divide_right_mono) (simp_all add: less_imp_le)
      then show "(of_int m :: rat) \<le> of_int (round_even (y / ulp y))"
        using round_even_ge by simp
    qed (simp add: less_imp_le)
    finally show ?thesis by (simp add: fl_pos x y)
  qed
qed

section \<open>Exact and approximate values\<close>

definition eps :: rat where "eps = 1 / 2 ^ 53"
definition eta :: rat where "eta = 1 / 2 ^ 1075"

lemma eps_pos: "0 < eps" by (simp add: eps_def)
lemma eta_pos: "0 < eta" by (simp add: eta_def)

lemma eta_le: "eta \<le> 1 / 2 ^ 60"
  unfolding eta_def by (intro divide_left_mono power_increasing) auto

text \<open>The rounding error is at most half a unit in the last place.\<close>

lemma fl_le: "0 \<le> x \<Longrightarrow> fl x \<le> x * (1 + eps) + eta"
proof (cases "x = 0")
  case False
  assume "0 \<le> x"
  with False have x: "0 < x" by simp
  have "of_int (round_even (x / ulp x)) \<le> x / ulp x + 1/2"
    using round_even_err [of "x / ulp x"] by linarith
  then have "fl x \<le> (x / ulp x + 1/2) * ulp x"
    unfolding fl_pos [OF x] by (intro mult_right_mono) (auto simp: less_imp_le)
  also have "\<dots> = x + ulp x / 2"
    using ulp_pos [of x] by (simp add: field_simps)
  finally have 1: "fl x \<le> x + ulp x / 2" .
  have "ulp x \<le> 2 powi (flog2 x - 52) + 2 powi (-1074)"
    by (auto simp: ulp_def ulp_exp_def max_def zero_le_power_int)
  also have "2 powi (flog2 x - 52) = 2 powi (flog2 x) / (2 ^ 52 :: rat)"
    by (simp add: power_int_diff)
  also have "\<dots> \<le> x / 2 ^ 52"
    using flog2_bounds(1) [OF x] by (intro divide_right_mono) auto
  finally have 2: "ulp x \<le> x / 2 ^ 52 + 2 powi (-1074)" by simp
  have "(2 powi (-1074) :: rat) = 2 * eta"
    by (simp add: eta_def power_int_def field_simps)
  with 1 2 show ?thesis by (simp add: eps_def field_simps)
qed (simp add: eta_pos less_imp_le)

text \<open>Integers of up to 53 bits are exact.\<close>

lemma fl_of_nat:
  assumes "n \<le> 2 ^ 53"
  shows "fl (of_nat n) = of_nat n"
proof (cases "n = 0")
  case False
  let ?x = "of_nat n :: rat"
  have x: "0 < ?x" using False by simp
  have "\<exists>m. ?x / ulp ?x = of_int m"
  proof (cases "flog2 ?x \<le> 52")
    case True
    moreover have "0 \<le> flog2 ?x"
    proof -
      have "2 powi 0 < (2 powi (flog2 ?x + 1) :: rat)"
        using flog2_bounds(2) [OF x] False by (simp add: le_less_trans [of 1 ?x])
      from powi_le_D [OF this] show ?thesis by simp
    qed
    ultimately have "?x / ulp ?x = of_int (int n * 2 ^ nat (52 - flog2 ?x))"
      by (simp add: ulp_def ulp_exp_def max_def power_int_def field_simps power_inverse)
    then show ?thesis by blast
  next
    case False
    have "2 powi (flog2 ?x) \<le> (2 powi 53 :: rat)"
    proof -
      have "?x \<le> of_nat (2 ^ 53)" using assms by (simp only: of_nat_le_iff)
      then show ?thesis using flog2_bounds(1) [OF x] by (simp add: power_int_def)
    qed
    also have "\<dots> < 2 powi 54" by (simp add: power_int_def)
    finally have e: "flog2 ?x = 53" using powi_le_D [of "flog2 ?x" 54] False by simp
    then have "2 ^ 53 \<le> ?x" using flog2_bounds(1) [OF x] by (simp add: power_int_def)
    then have "(of_nat (2 ^ 53) :: rat) \<le> ?x" by simp
    then have "2 ^ 53 \<le> n" by (simp only: of_nat_le_iff)
    with assms have "n = 2 ^ 53" by simp
    then have "?x / ulp ?x = of_int (2 ^ 52)"
      using e by (simp add: ulp_def ulp_exp_def power_int_def)
    then show ?thesis by blast
  qed
  then obtain m where m: "?x / ulp ?x = of_int m" by blast
  have "fl ?x = of_int m * ulp ?x" by (simp add: fl_pos [OF x] m)
  also have "\<dots> = ?x" by (simp flip: m)
  finally show ?thesis .
qed simp

lemma fl_1 [simp]: "fl 1 = 1"
  using fl_of_nat [of 1] by simp

lemma fl_ge_nat: "of_nat n \<le> x \<Longrightarrow> n \<le> 2 ^ 53 \<Longrightarrow> of_nat n \<le> fl x"
  using fl_mono [of "of_nat n" x] fl_of_nat [of n] by simp

end
