(* ===== verification/TokenBucket.thy ===== *)
theory TokenBucket
  imports Limiter Float64
begin

text \<open>
  internal/ratelimit/token_bucket.go: the token bucket and the registry of one bucket per key.

  The \<open>float64\<close> fields are rationals and every operation on them is rounded by \<open>fl\<close>. \<open>Allow\<close>
  reads the clock twice, for the elapsed time and for \<open>lastRefill\<close>; the registry reads it once
  more when it creates a bucket. The readings are arguments; a clock that never goes back is a
  hypothesis of the theorems.
\<close>

record token_bucket =
  tokens :: rat
  maxTokens :: rat
  refillRate :: rat
  lastRefill :: time

definition NewTokenBucket :: "rat \<Rightarrow> rat \<Rightarrow> time \<Rightarrow> token_bucket" where
  "NewTokenBucket mx rate now = \<lparr>tokens = mx, maxTokens = mx, refillRate = rate, lastRefill = now\<rparr>"

text \<open>\<open>Duration.Seconds\<close>: \<open>float64(d / 1e9) + float64(d % 1e9) / 1e9\<close>, with Go's truncating division.\<close>

definition Seconds :: "int \<Rightarrow> rat" where
  "Seconds d =
     (let sec = sgn d * (\<bar>d\<bar> div 1000000000); nsec = d - sec * 1000000000
      in fl (fl (of_int sec) + fl (fl (of_int nsec) / 1000000000)))"

definition tb_Allow :: "time \<times> time \<Rightarrow> token_bucket \<Rightarrow> bool \<times> token_bucket" where
  "tb_Allow clk tb =
     (case clk of (now1, now2) \<Rightarrow>
        let elapsed = time_sub now1 (lastRefill tb);
            t = fl (tokens tb + fl (Seconds elapsed * refillRate tb));
            t = (if t > maxTokens tb then maxTokens tb else t);
            tb = tb\<lparr>tokens := t, lastRefill := now2\<rparr>
        in if tokens tb \<ge> 1 then (True, tb\<lparr>tokens := fl (tokens tb - 1)\<rparr>) else (False, tb))"

record bucket_registry =
  buckets :: "(string, token_bucket) fmap"
  reg_maxTokens :: rat
  reg_refillRate :: rat

definition NewBucketRegistry :: "rat \<Rightarrow> rat \<Rightarrow> bucket_registry" where
  "NewBucketRegistry mx rate = \<lparr>buckets = fmempty, reg_maxTokens = mx, reg_refillRate = rate\<rparr>"

definition BucketRegistry_Allow ::
  "time \<times> time \<times> time \<Rightarrow> string \<Rightarrow> bucket_registry \<Rightarrow> bool \<times> bucket_registry" where
  "BucketRegistry_Allow clk key r =
     (case clk of (now0, now12) \<Rightarrow>
        let (tb, r) = (case fmlookup (buckets r) key of
                         Some tb \<Rightarrow> (tb, r)
                       | None \<Rightarrow> let tb = NewTokenBucket (reg_maxTokens r) (reg_refillRate r) now0
                                 in (tb, r\<lparr>buckets := fmupd key tb (buckets r)\<rparr>));
            (ok, tb) = tb_Allow now12 tb
        in (ok, r\<lparr>buckets := fmupd key tb (buckets r)\<rparr>))"

section \<open>Runs\<close>

fun tb_run :: "(time \<times> time) list \<Rightarrow> token_bucket \<Rightarrow> bool list \<times> token_bucket" where
  "tb_run [] tb = ([], tb)"
| "tb_run (clk # clks) tb =
     (let (ok, tb) = tb_Allow clk tb; (oks, tb) = tb_run clks tb in (ok # oks, tb))"

fun tb_clock :: "time \<Rightarrow> (time \<times> time) list \<Rightarrow> bool" where
  "tb_clock t [] = True"
| "tb_clock t ((a, b) # clks) = (t \<le> a \<and> a \<le> b \<and> tb_clock b clks)"

fun last_time :: "time \<Rightarrow> (time \<times> time) list \<Rightarrow> time" where
  "last_time t [] = t"
| "last_time t ((a, b) # clks) = last_time b clks"

text \<open>The configuration a bucket may have: a float64 capacity of at least 0 and a rate of at least 0.\<close>

definition bucket_config :: "rat \<Rightarrow> rat \<Rightarrow> bool" where
  "bucket_config mx rate \<longleftrightarrow> 0 \<le> mx \<and> fl mx = mx \<and> 0 \<le> rate"

definition bucket_inv :: "token_bucket \<Rightarrow> bool" where
  "bucket_inv tb \<longleftrightarrow> bucket_config (maxTokens tb) (refillRate tb) \<and> 0 \<le> tokens tb \<and> tokens tb \<le> maxTokens tb"

lemma Seconds_split:
  assumes "0 \<le> d"
  shows "Seconds d = fl (fl (of_int (d div 1000000000)) + fl (fl (of_int (d mod 1000000000)) / 1000000000))"
proof -
  have "sgn d * (\<bar>d\<bar> div 1000000000) = d div 1000000000"
    using assms by (cases "d = 0") simp_all
  then show ?thesis
    by (simp only: Seconds_def Let_def minus_div_mult_eq_mod)
qed

lemma Seconds_nonneg: "0 \<le> d \<Longrightarrow> 0 \<le> Seconds d"
  unfolding Seconds_split
  by (intro fl_nonneg add_nonneg_nonneg divide_nonneg_nonneg)
    (simp_all add: pos_imp_zdiv_nonneg_iff)

lemma tb_Allow_config:
  "maxTokens (snd (tb_Allow clk tb)) = maxTokens tb \<and> refillRate (snd (tb_Allow clk tb)) = refillRate tb \<and>
   lastRefill (snd (tb_Allow clk tb)) = snd clk"
  by (cases clk) (simp add: tb_Allow_def Let_def)

lemma tb_Allow_inv:
  assumes "bucket_inv tb" and "lastRefill tb \<le> a"
  shows "bucket_inv (snd (tb_Allow (a, b) tb))"
proof -
  let ?t = "fl (tokens tb + fl (Seconds (time_sub a (lastRefill tb)) * refillRate tb))"
  have inv: "0 \<le> tokens tb" "0 \<le> maxTokens tb" "fl (maxTokens tb) = maxTokens tb" "0 \<le> refillRate tb"
    using assms(1) by (simp_all add: bucket_inv_def bucket_config_def)
  have "0 \<le> Seconds (time_sub a (lastRefill tb))"
    using assms(2) by (intro Seconds_nonneg) (simp add: time_simps)
  with inv have "0 \<le> ?t"
    by (intro fl_nonneg add_nonneg_nonneg mult_nonneg_nonneg)
  have "0 \<le> fl (x - 1) \<and> fl (x - 1) \<le> maxTokens tb" if "1 \<le> x" "x \<le> maxTokens tb" for x
    using that fl_nonneg [of "x - 1"] fl_mono [of "x - 1" "maxTokens tb"] inv by simp
  with \<open>0 \<le> ?t\<close> assms(1) show ?thesis
    by (simp add: bucket_inv_def tb_Allow_def Let_def)
qed

text \<open>One call as an inequality: the bucket gains at most what the elapsed time earns.\<close>

definition slack :: "token_bucket \<Rightarrow> rat" where
  "slack tb = (maxTokens tb + refillRate tb + 1) / 2 ^ 50"

lemma fl_le': "0 \<le> x \<Longrightarrow> x \<le> y \<Longrightarrow> fl x \<le> y * (1 + eps) + eta"
proof -
  assume "0 \<le> x" "x \<le> y"
  then have "fl x \<le> x * (1 + eps) + eta" by (intro fl_le)
  also have "\<dots> \<le> y * (1 + eps) + eta"
    using \<open>x \<le> y\<close> eps_pos by (intro add_right_mono mult_right_mono) auto
  finally show ?thesis .
qed

lemma eps_powers:
  "(1 + eps) ^ 2 \<le> 1 + 4 * eps" "(1 + eps) ^ 3 \<le> 1 + 4 * eps" "(1 + 4 * eps) * (1 + eps) ^ 2 \<le> 1 + 8 * eps"
  "1 + eps \<le> 2" "(1 + eps) ^ 2 \<le> 2"
  by (simp_all add: eps_def field_simps power2_eq_square power3_eq_cube)

lemma Seconds_le:
  assumes "0 \<le> d"
  shows "Seconds d \<le> of_int d / 1000000000 * (1 + 4 * eps) + 8 * eta"
proof -
  define q r :: rat where "q = of_int (d div 1000000000)" and "r = of_int (d mod 1000000000) / 1000000000"
  let ?P = "1 + eps"
  have q: "0 \<le> q" and r: "0 \<le> r"
    using assms by (simp_all add: q_def r_def pos_imp_zdiv_nonneg_iff)
  have d: "of_int d / 1000000000 = q + r"
  proof -
    have "(of_int d :: rat) = of_int (d div 1000000000 * 1000000000 + d mod 1000000000)" by simp
    also have "\<dots> = of_int (d div 1000000000) * 1000000000 + of_int (d mod 1000000000)"
      by (simp only: of_int_add of_int_mult of_int_numeral)
    finally show ?thesis by (simp add: q_def r_def)
  qed
  have P: "0 \<le> ?P" using eps_pos by simp
  note pos = fl_nonneg q r eta_pos [THEN less_imp_le] P
  let ?fr = "fl (of_int (d mod 1000000000)) / 1000000000"
  have fr0: "0 \<le> ?fr" by (intro divide_nonneg_nonneg fl_nonneg) simp_all
  have "?fr \<le> (of_int (d mod 1000000000) * ?P + eta) / 1000000000"
    by (intro divide_right_mono fl_le) simp_all
  also have "\<dots> \<le> r * ?P + eta"
    using eta_pos by (simp add: r_def field_simps)
  finally have "fl ?fr \<le> (r * ?P + eta) * ?P + eta"
    using fr0 by (intro fl_le')
  moreover have "fl q \<le> q * ?P + eta" using q by (rule fl_le)
  ultimately have sum: "fl q + fl ?fr \<le> q * ?P + eta + ((r * ?P + eta) * ?P + eta)" by linarith
  have "Seconds d = fl (fl q + fl ?fr)"
    using assms by (simp add: Seconds_split q_def)
  also have "\<dots> \<le> (q * ?P + eta + ((r * ?P + eta) * ?P + eta)) * ?P + eta"
    using sum q fr0 by (intro fl_le' add_nonneg_nonneg fl_nonneg)
  also have "\<dots> = q * ?P ^ 2 + r * ?P ^ 3 + eta * (?P ^ 2 + 2 * ?P + 1)"
    by (simp add: power2_eq_square power3_eq_cube algebra_simps)
  also have "\<dots> \<le> q * (1 + 4 * eps) + r * (1 + 4 * eps) + eta * 8"
    using eps_powers q r eta_pos by (intro add_mono mult_left_mono) auto
  finally show ?thesis by (simp add: d algebra_simps)
qed

lemma tb_Allow_spends:
  assumes inv: "bucket_inv tb" and clk: "lastRefill tb \<le> a"
    and call: "tb_Allow (a, b) tb = (ok, tb')"
  shows "tokens tb' + (if ok then 1 else 0) \<le>
    tokens tb + of_int (time_sub a (lastRefill tb)) / 1000000000 * refillRate tb * (1 + 1 / 2 ^ 50) + slack tb"
proof -
  let ?P = "1 + eps" and ?s = "of_int (time_sub a (lastRefill tb)) / 1000000000 :: rat"
  let ?sec = "Seconds (time_sub a (lastRefill tb))"
  let ?M = "maxTokens tb" and ?R = "refillRate tb"
  have d: "0 \<le> time_sub a (lastRefill tb)" using clk by (simp add: time_simps)
  then have s: "0 \<le> ?s" and sec: "0 \<le> ?sec" by (simp_all add: Seconds_nonneg)
  have R: "0 \<le> ?R" and M: "0 \<le> ?M" and t0: "0 \<le> tokens tb" and tM: "tokens tb \<le> ?M"
    using inv by (simp_all add: bucket_inv_def bucket_config_def)
  have e: "0 \<le> eps" "0 \<le> eta" "0 \<le> ?P" using eps_pos eta_pos by simp_all
  define inc where "inc = fl (?sec * ?R)"
  have inc0: "0 \<le> inc" unfolding inc_def using sec R by (intro fl_nonneg mult_nonneg_nonneg)
  have "?sec * ?R \<le> (?s * (1 + 4 * eps) + 8 * eta) * ?R"
    using Seconds_le [OF d] R by (intro mult_right_mono)
  then have "inc \<le> (?s * (1 + 4 * eps) + 8 * eta) * ?R * ?P + eta"
    unfolding inc_def using sec R by (intro fl_le' mult_nonneg_nonneg)
  then have "inc * ?P \<le> ((?s * (1 + 4 * eps) + 8 * eta) * ?R * ?P + eta) * ?P"
    using e by (intro mult_right_mono)
  also have "\<dots> = ?s * ?R * ((1 + 4 * eps) * ?P ^ 2) + 8 * eta * ?R * ?P ^ 2 + eta * ?P"
    by (simp add: power2_eq_square algebra_simps)
  also have "\<dots> \<le> ?s * ?R * (1 + 8 * eps) + 8 * eta * ?R * 2 + eta * 2"
    using eps_powers s R e by (intro add_mono mult_left_mono mult_nonneg_nonneg) auto
  finally have incP: "inc * ?P \<le> ?s * ?R * (1 + 8 * eps) + 16 * eta * ?R + 2 * eta" by simp
  define t where "t = fl (tokens tb + inc)"
  have "t \<le> (tokens tb + inc) * ?P + eta"
    unfolding t_def using t0 inc0 by (intro fl_le) simp
  moreover have "tokens tb * eps \<le> ?M * eps" using tM e by (intro mult_right_mono)
  ultimately have t: "t \<le> tokens tb + ?M * eps + ?s * ?R * (1 + 8 * eps) + 16 * eta * ?R + 3 * eta"
    using incP by (simp add: algebra_simps)
  define t' where "t' = (if t > ?M then ?M else t)"
  have t': "t' \<le> t" "t' \<le> ?M" by (simp_all add: t'_def)
  have dec: "fl (t' - 1) + 1 \<le> t' + ?M * eps + eta" if "1 \<le> t'"
  proof -
    have "fl (t' - 1) \<le> (t' - 1) * ?P + eta" using that by (intro fl_le) simp
    moreover have "(t' - 1) * eps \<le> ?M * eps" using t' e by (intro mult_right_mono) auto
    ultimately show ?thesis by (simp add: algebra_simps)
  qed
  have nn: "0 \<le> ?M * eps" "0 \<le> eta" using M e by simp_all
  have "tokens tb' + (if ok then 1 else 0) \<le> t' + ?M * eps + eta"
    using call dec nn by (auto simp: tb_Allow_def Let_def t'_def t_def inc_def split: if_splits)
  also have "\<dots> \<le> tokens tb + ?s * ?R * (1 + 8 * eps) + (2 * ?M * eps + 16 * eta * ?R + 4 * eta)"
    using t t' by (simp add: algebra_simps)
  also have "\<dots> \<le> tokens tb + ?s * ?R * (1 + 1 / 2 ^ 50) + slack tb"
  proof (intro add_mono order_refl)
    show "?s * ?R * (1 + 8 * eps) \<le> ?s * ?R * (1 + 1 / 2 ^ 50)"
      using s R by (intro mult_left_mono mult_nonneg_nonneg) (simp_all add: eps_def)
    have "?M * (2 * eps) \<le> ?M * (1 / 2 ^ 50)"
      using M by (intro mult_left_mono) (simp_all add: eps_def)
    moreover have small: "16 * eta \<le> 1 / 2 ^ 50" "4 * eta \<le> 1 / 2 ^ 50"
      using eta_le by simp_all
    moreover have "?R * (16 * eta) \<le> ?R * (1 / 2 ^ 50)"
      using R small(1) by (intro mult_left_mono)
    ultimately show "2 * ?M * eps + 16 * eta * ?R + 4 * eta \<le> slack tb"
      by (simp add: slack_def field_simps)
  qed
  finally show ?thesis .
qed

lemma bucket_inv_New: "bucket_config mx rate \<Longrightarrow> bucket_inv (NewTokenBucket mx rate now)"
  by (simp add: bucket_inv_def NewTokenBucket_def bucket_config_def)

lemma tb_run_inv:
  "bucket_inv tb \<Longrightarrow> tb_clock (lastRefill tb) clks \<Longrightarrow> bucket_inv (snd (tb_run clks tb))"
proof (induction clks arbitrary: tb)
  case (Cons clk clks)
  obtain a b where clk: "clk = (a, b)" by fastforce
  have "bucket_inv (snd (tb_Allow (a, b) tb))"
    using Cons.prems by (intro tb_Allow_inv) (simp_all add: clk)
  then show ?case
    using Cons.IH [of "snd (tb_Allow (a, b) tb)"] Cons.prems(2) tb_Allow_config [of "(a, b)" tb]
    by (simp add: clk case_prod_beta)
qed simp

lemma TokenBucket_inv_tokens:
  assumes "bucket_config mx rate" and "tb_clock t clks"
  shows "0 \<le> tokens (snd (tb_run clks (NewTokenBucket mx rate t)))"
  using tb_run_inv [OF bucket_inv_New [OF assms(1)], of t clks] assms(2)
  by (simp add: NewTokenBucket_def bucket_inv_def)

definition admissions :: "bool list \<Rightarrow> nat" where
  "admissions oks = length (filter id oks)"

lemma admissions_simps [simp]:
  "admissions [] = 0" "admissions (b # bs) = (if b then 1 else 0) + admissions bs"
  by (simp_all add: admissions_def)

lemma tb_run_spends:
  assumes "bucket_inv tb" and "tb_clock (lastRefill tb) clks" and "tb_run clks tb = (oks, tb')"
  shows "tokens tb' + of_nat (admissions oks) \<le> tokens tb +
    of_int (time_sub (last_time (lastRefill tb) clks) (lastRefill tb)) / 1000000000 * refillRate tb * (1 + 1 / 2 ^ 50) +
    of_nat (length clks) * slack tb"
  using assms
proof (induction clks arbitrary: tb oks)
  case Nil
  then show ?case by (simp add: time_simps)
next
  case (Cons clk clks)
  obtain a b where clk: "clk = (a, b)" by fastforce
  obtain ok tb1 oks1 where a: "tb_Allow (a, b) tb = (ok, tb1)"
    and r: "tb_run clks tb1 = (oks1, tb')" and oks: "oks = ok # oks1"
    using Cons.prems(3) by (auto simp: clk split: prod.splits)
  have c: "lastRefill tb \<le> a" "a \<le> b" "tb_clock b clks" using Cons.prems(2) by (simp_all add: clk)
  have f: "maxTokens tb1 = maxTokens tb" "refillRate tb1 = refillRate tb" "lastRefill tb1 = b"
    using tb_Allow_config [of "(a, b)" tb] by (simp_all add: a)
  have inv1: "bucket_inv tb1"
    using tb_Allow_inv [OF Cons.prems(1) c(1), of b] by (simp add: a)
  define k where "k = refillRate tb * (1 + 1 / 2 ^ 50) / 1000000000"
  have conv: "of_int x / 1000000000 * refillRate tb * (1 + 1 / 2 ^ 50) = of_int x * k" for x
    by (simp add: k_def)
  have "0 \<le> k" using Cons.prems(1) by (simp add: k_def bucket_inv_def bucket_config_def)
  then have "of_int (time_sub a (lastRefill tb)) * k \<le> of_int (time_sub b (lastRefill tb)) * k"
    using c by (intro mult_right_mono) (simp_all add: time_simps)
  moreover have "of_int (time_sub b (lastRefill tb)) * k + of_int (time_sub (last_time b clks) b) * k =
      of_int (time_sub (last_time b clks) (lastRefill tb)) * k"
    by (simp add: time_simps algebra_simps)
  moreover have "tokens tb1 + (if ok then 1 else 0) \<le>
      tokens tb + of_int (time_sub a (lastRefill tb)) * k + slack tb"
    using tb_Allow_spends [OF Cons.prems(1) c(1) a] unfolding conv .
  moreover have "tokens tb' + of_nat (admissions oks1) \<le> tokens tb1 +
      of_int (time_sub (last_time b clks) b) * k + of_nat (length clks) * slack tb"
    using Cons.IH [OF inv1 _ r] c(3) unfolding f conv by (simp add: slack_def f)
  ultimately have "tokens tb' + ((if ok then 1 else 0) + of_nat (admissions oks1)) \<le>
      tokens tb + of_int (time_sub (last_time b clks) (lastRefill tb)) * k +
      (slack tb + of_nat (length clks) * slack tb)"
    by linarith
  moreover have "of_nat (length (clk # clks)) * slack tb = slack tb + of_nat (length clks) * slack tb"
    by (simp add: algebra_simps)
  moreover have "(of_nat (admissions oks) :: rat) = (if ok then 1 else 0) + of_nat (admissions oks1)"
    by (simp add: oks)
  ultimately show ?case
    unfolding conv by (simp only: clk last_time.simps)
qed

section \<open>Whole tokens\<close>

text \<open>On whole numbers of tokens (up to 53 bits) the arithmetic is exact.\<close>

lemma Seconds_0: "Seconds 0 = 0"
  by (simp add: Seconds_def)


lemma tb_run_burst:
  assumes "k \<le> m" and "m \<le> 2 ^ 53" and "tokens tb = of_nat k" and "maxTokens tb = of_nat m" and "lastRefill tb = t"
  shows "fst (tb_run (replicate n (t, t)) tb) = replicate (min n k) True @ replicate (n - k) False"
  using assms
proof (induction n arbitrary: k tb)
  case (Suc n)
  have fl: "fl (of_nat j) = of_nat j" if "j \<le> m" for j
    using that Suc.prems(2) by (intro fl_of_nat) simp
  have t: "fl (tokens tb + fl (Seconds (time_sub t (lastRefill tb)) * refillRate tb)) = of_nat k"
    using Suc.prems fl by (simp add: time_simps Seconds_0)
  show ?case
  proof (cases k)
    case 0
    then have "tb_Allow (t, t) tb = (False, tb\<lparr>tokens := 0, lastRefill := t\<rparr>)"
      using t Suc.prems by (simp add: tb_Allow_def Let_def)
    then show ?thesis
      using Suc.IH [of 0 "tb\<lparr>tokens := 0, lastRefill := t\<rparr>"] Suc.prems 0 by (simp add: case_prod_beta)
  next
    case (Suc k')
    then have "(1 :: rat) \<le> of_nat k" "fl (of_nat k - 1) = of_nat k'"
      using fl [of k'] Suc.prems by simp_all
    then have "tb_Allow (t, t) tb = (True, tb\<lparr>tokens := of_nat k', lastRefill := t\<rparr>)"
      using t Suc.prems by (simp add: tb_Allow_def Let_def)
    then show ?thesis
      using Suc.IH [of k' "tb\<lparr>tokens := of_nat k', lastRefill := t\<rparr>"] Suc.prems Suc
      by (simp add: case_prod_beta)
  qed
qed simp

section \<open>The registry\<close>

definition tb_step ::
  "rat \<times> rat \<Rightarrow> time \<times> time \<times> time \<Rightarrow> token_bucket option \<Rightarrow> bool \<times> token_bucket" where
  "tb_step p clk l =
     tb_Allow (snd clk) (case l of Some tb \<Rightarrow> tb | None \<Rightarrow> NewTokenBucket (fst p) (snd p) (fst clk))"

interpretation bucket_reg: keyed_limiter BucketRegistry_Allow "\<lambda>r. fmlookup (buckets r)"
    "\<lambda>r. (reg_maxTokens r, reg_refillRate r)" tb_step
  by unfold_locales
    (auto simp: BucketRegistry_Allow_def tb_step_def Let_def split: prod.splits option.splits)

lemma single_run_tb: "single_run (tb_step p) is (Some tb) = fst (tb_run (map snd is) tb)"
  by (induction "is" arbitrary: tb) (auto simp: tb_step_def split: prod.splits)

section \<open>Properties\<close>

text \<open>
  C12. Invariant of the bucket: with a capacity that is a float64 of at least 0, a rate of at
  least 0 and a clock that never goes back, the rounded arithmetic keeps the number of tokens
  between 0 and the capacity after every run of \<open>Allow\<close> calls.
\<close>

theorem TokenBucket_bounds:
  assumes "bucket_config mx rate" and "tb_clock t clks"
  shows "0 \<le> tokens (snd (tb_run clks (NewTokenBucket mx rate t))) \<and>
         tokens (snd (tb_run clks (NewTokenBucket mx rate t))) \<le> mx"
proof -
  have "bucket_inv (snd (tb_run clks (NewTokenBucket mx rate t)))"
    using assms by (intro tb_run_inv bucket_inv_New) (simp_all add: NewTokenBucket_def)
  moreover have "maxTokens (snd (tb_run clks tb)) = maxTokens tb" for tb
    by (induction clks arbitrary: tb) (simp_all add: case_prod_beta tb_Allow_config)
  ultimately show ?thesis by (simp add: bucket_inv_def NewTokenBucket_def)
qed

theorem TokenBucket_bounds_witness:
  "0 \<le> tokens (snd (tb_run [(Time 0, Time 0), (Time 7, Time 9)] (NewTokenBucket 5 (1/2) (Time 0))))"
proof -
  have "bucket_config 5 (1/2)"
    using fl_of_nat [of 5] by (simp add: bucket_config_def)
  from TokenBucket_bounds [OF this, of "Time 0" "[(Time 0, Time 0), (Time 7, Time 9)]"]
  show ?thesis by (simp add: less_eq_time_def)
qed

text \<open>
  C11. The rate limit of the bucket, rounding included: over any run the number of admitted
  requests is at most the capacity plus the rate times the elapsed seconds, up to a factor
  \<open>1 + 2^-50\<close> and \<open>2^-50 (capacity + rate + 1)\<close> for each call made.
\<close>

theorem TokenBucket_rate:
  assumes "bucket_config mx rate" and "tb_clock t clks"
  shows "of_nat (admissions (fst (tb_run clks (NewTokenBucket mx rate t)))) \<le>
    mx + of_int (time_sub (last_time t clks) t) / 1000000000 * rate * (1 + 1 / 2 ^ 50) +
    of_nat (length clks) * ((mx + rate + 1) / 2 ^ 50)"
proof -
  let ?tb = "NewTokenBucket mx rate t"
  obtain oks tb' where r: "tb_run clks ?tb = (oks, tb')" by fastforce
  have f: "lastRefill ?tb = t" "tokens ?tb = mx" "refillRate ?tb = rate" "slack ?tb = (mx + rate + 1) / 2 ^ 50"
    by (simp_all add: NewTokenBucket_def slack_def)
  have "tokens tb' + of_nat (admissions oks) \<le>
      mx + of_int (time_sub (last_time t clks) t) / 1000000000 * rate * (1 + 1 / 2 ^ 50) +
      of_nat (length clks) * ((mx + rate + 1) / 2 ^ 50)"
    using tb_run_spends [OF bucket_inv_New [OF assms(1)] _ r] assms(2) unfolding f by blast
  moreover have "0 \<le> tokens tb'"
    using TokenBucket_inv_tokens [OF assms] by (simp add: r)
  ultimately show ?thesis
    unfolding r fst_conv by linarith
qed

theorem TokenBucket_rate_witness:
  "of_nat (admissions (fst (tb_run [(Time 0, Time 0), (Time 7, Time 9)] (NewTokenBucket 5 (1/2) (Time 0))))) \<le>
    (5 :: rat) + of_int (time_sub (last_time (Time 0) [(Time 0, Time 0), (Time 7, Time 9)]) (Time 0)) / 1000000000
      * (1/2) * (1 + 1 / 2 ^ 50) + of_nat (length [(Time 0, Time 0), (Time 7, Time 9)]) * ((5 + 1/2 + 1) / 2 ^ 50)"
proof (rule TokenBucket_rate)
  show "bucket_config 5 (1/2)" using fl_of_nat [of 5] by (simp add: bucket_config_def)
  show "tb_clock (Time 0) [(Time 0, Time 0), (Time 7, Time 9)]" by (simp add: less_eq_time_def)
qed

text \<open>
  The burst: of \<open>n\<close> requests made at the instant a bucket of \<open>m\<close> tokens is created, exactly
  the first \<open>m\<close> are admitted (in the gateway 5, whatever the refill rate).
\<close>

theorem TokenBucket_burst:
  assumes "m \<le> 2 ^ 53"
  shows "fst (tb_run (replicate n (t, t)) (NewTokenBucket (of_nat m) rate t)) =
         replicate (min n m) True @ replicate (n - m) False"
  using assms by (intro tb_run_burst) (simp_all add: NewTokenBucket_def)

theorem TokenBucket_burst_witness:
  "fst (tb_run (replicate 7 (Time 3, Time 3)) (NewTokenBucket (of_nat 5) (1/2) (Time 3))) =
   [True, True, True, True, True, False, False]"
proof -
  have "(5 :: nat) \<le> 2 ^ 53" by simp
  from TokenBucket_burst [OF this, of 7 "Time 3" "1/2"]
  have "fst (tb_run (replicate 7 (Time 3, Time 3)) (NewTokenBucket (of_nat 5) (1/2) (Time 3))) =
      replicate (min 7 5) True @ replicate (7 - 5) False" .
  also have "\<dots> = [True, True, True, True, True, False, False]" by code_simp
  finally show ?thesis .
qed



text \<open>
  The bucket registry isolates its keys: over any interleaving of requests, the decisions for
  one key are those of a lone bucket, created at the key's first request and given that key's
  requests only.
\<close>

theorem BucketRegistry_per_key:
  "decisions_of k xs (fst (keyed_run BucketRegistry_Allow xs (NewBucketRegistry mx rate))) =
   (case inputs_of k xs of
      [] \<Rightarrow> []
    | (now0, clk) # clks \<Rightarrow> fst (tb_run (clk # map snd clks) (NewTokenBucket mx rate now0)))"
  unfolding bucket_reg.keyed_run_isolated
  by (auto simp: NewBucketRegistry_def tb_step_def single_run_tb [of "(mx, rate)"] split: list.splits prod.splits)

end
