(* ===== verification/ConnRegistry.thy ===== *)
theory ConnRegistry
  imports Prelude
begin

text \<open>
  internal/server/registry.go: the set of active TCP connections, at most 100. The code keeps a
  \<open>map[net.Conn]bool\<close>; every method holds the mutex for its whole body and is one step here.
\<close>

record registry =
  reg_conns :: "(conn, bool) fmap"

definition NewConnRegistry :: registry where
  "NewConnRegistry = \<lparr>reg_conns = fmempty\<rparr>"

definition Registry_Add :: "conn option \<Rightarrow> registry \<Rightarrow> go_error option \<times> registry" where
  "Registry_Add c r =
     (case c of
        None \<Rightarrow> (Some (Err ''conn must not be nil''), r)
      | Some c \<Rightarrow>
          if fcard (fmdom (reg_conns r)) \<ge> 100 then (Some (Err ''server full''), r)
          else (None, r\<lparr>reg_conns := fmupd c True (reg_conns r)\<rparr>))"

definition Registry_Remove :: "conn option \<Rightarrow> registry \<Rightarrow> go_error option \<times> registry" where
  "Registry_Remove c r =
     (case c of
        None \<Rightarrow> (Some (Err ''conn must not be nil''), r)
      | Some c \<Rightarrow> (None, r\<lparr>reg_conns := fmdrop c (reg_conns r)\<rparr>))"

definition Registry_Count :: "registry \<Rightarrow> nat" where
  "Registry_Count r = fcard (fmdom (reg_conns r))"

section \<open>Operation sequences\<close>

datatype reg_op = AddOp "conn option" | RemoveOp "conn option"

fun reg_step :: "reg_op \<Rightarrow> registry \<Rightarrow> registry" where
  "reg_step (AddOp c) r = snd (Registry_Add c r)"
| "reg_step (RemoveOp c) r = snd (Registry_Remove c r)"

definition reg_run :: "reg_op list \<Rightarrow> registry" where
  "reg_run ops = fold reg_step ops NewConnRegistry"

text \<open>The specification: a set of connections with 100 places.\<close>

fun spec_step :: "reg_op \<Rightarrow> conn fset \<Rightarrow> conn fset" where
  "spec_step (AddOp None) S = S"
| "spec_step (AddOp (Some c)) S = (if fcard S < 100 then finsert c S else S)"
| "spec_step (RemoveOp None) S = S"
| "spec_step (RemoveOp (Some c)) S = S |-| {|c|}"

lemma reg_step_spec: "fmdom (reg_conns (reg_step op r)) = spec_step op (fmdom (reg_conns r))"
  by (cases "(op, fmdom (reg_conns r))" rule: spec_step.cases) (auto simp: Registry_Add_def Registry_Remove_def)

lemma spec_step_card: "fcard S \<le> 100 \<Longrightarrow> fcard (spec_step op S) \<le> 100"
proof (cases "(op, S)" rule: spec_step.cases)
  case (4 c S')
  assume "fcard S \<le> 100"
  moreover have "fcard (S' |-| {|c|}) \<le> fcard S'" by (rule fcard_mono) auto
  ultimately show ?thesis using 4 by simp
qed (auto simp: fcard_finsert_if)

text \<open>
  The connection registry refines a set with 100 places, and never holds more: after any
  sequence of \<open>Add\<close> and \<open>Remove\<close> calls its keys are the set the specification computes and
  \<open>Count\<close> is at most 100. An \<open>Add\<close> succeeds exactly for a connection that is not nil while there
  is room, and a refused one changes nothing.
\<close>

theorem registry_refines_set:
  "fmdom (reg_conns (reg_run ops)) = fold spec_step ops {||} \<and>
   Registry_Count (reg_run ops) \<le> 100 \<and>
   (fst (Registry_Add c (reg_run ops)) = None \<longleftrightarrow> c \<noteq> None \<and> Registry_Count (reg_run ops) < 100) \<and>
   (fst (Registry_Add c (reg_run ops)) = None \<or> snd (Registry_Add c (reg_run ops)) = reg_run ops)"
proof -
  have run: "fmdom (reg_conns (fold reg_step ops r)) = fold spec_step ops (fmdom (reg_conns r))" for r
    by (induction ops arbitrary: r) (simp_all add: reg_step_spec)
  moreover have "fcard S \<le> 100 \<Longrightarrow> fcard (fold spec_step ops S) \<le> 100" for S
    by (induction ops arbitrary: S) (simp_all add: spec_step_card)
  from this [of "{||}"] have "fcard (fold spec_step ops {||}) \<le> 100"
    by (simp add: fcard.rep_eq)
  ultimately show ?thesis
    by (auto simp: Registry_Count_def reg_run_def NewConnRegistry_def Registry_Add_def split: option.splits)
qed

end
