(* ===== verification/Presence.thy ===== *)
theory Presence
  imports Domain
begin

text \<open>
  internal/presence: the gateway's presence store (user name to connection) and the presence
  service's store of online users with its event handler (cmd/presence-service).

  \<open>range\<close> loops take the iteration order as the parameter \<open>ord\<close>; they are loops over the keys
  the map has when the loop starts, deleting entries on the way as the code does.
\<close>

section \<open>InMemoryPresenceStore\<close>

record presence_store =
  ps_conns :: "(string, conn) fmap"

definition NewInMemoryPresenceStore :: presence_store where
  "NewInMemoryPresenceStore = \<lparr>ps_conns = fmempty\<rparr>"

definition ps_Add :: "string \<Rightarrow> conn option \<Rightarrow> presence_store \<Rightarrow> go_error option \<times> presence_store" where
  "ps_Add username c ps =
     (case c of
        None \<Rightarrow> (Some (Err ''conn must not be nil''), ps)
      | Some c \<Rightarrow> (None, ps\<lparr>ps_conns := fmupd username c (ps_conns ps)\<rparr>))"

definition ps_Remove ::
  "(string fset \<Rightarrow> string list) \<Rightarrow> conn option \<Rightarrow> presence_store \<Rightarrow> go_error option \<times> presence_store" where
  "ps_Remove ord c ps =
     (case c of
        None \<Rightarrow> (Some (Err ''conn must not be nil''), ps)
      | Some c \<Rightarrow>
          (None, ps\<lparr>ps_conns :=
             fold (\<lambda>username m. if fmlookup m username = Some c then fmdrop username m else m)
               (ord (fmdom (ps_conns ps))) (ps_conns ps)\<rparr>))"

definition ps_List :: "(string fset \<Rightarrow> string list) \<Rightarrow> presence_store \<Rightarrow> string list" where
  "ps_List ord ps = ord (fmdom (ps_conns ps))"

lemma ps_Remove_lookup:
  assumes "iteration_order ord"
  shows "fmlookup (ps_conns (snd (ps_Remove ord (Some c) ps))) u =
    (if fmlookup (ps_conns ps) u = Some c then None else fmlookup (ps_conns ps) u)"
proof -
  have "fmlookup (fold (\<lambda>username m. if fmlookup m username = Some c then fmdrop username m else m)
      (ord (fmdom (ps_conns ps))) (ps_conns ps)) u =
    (\<lambda>k v. if v = Some c then None else v) u (fmlookup (ps_conns ps) u)"
    by (rule fold_over_map [OF _ assms]) auto
  then show ?thesis by (simp add: ps_Remove_def)
qed

section \<open>InMemoryOnlineStore\<close>

record online_store =
  online :: "(string, bool) fmap"

definition NewOnlineStore :: online_store where
  "NewOnlineStore = \<lparr>online = fmempty\<rparr>"

definition SetOnline :: "string \<Rightarrow> bool \<Rightarrow> online_store \<Rightarrow> online_store" where
  "SetOnline username on os =
     (if on then os\<lparr>online := fmupd username True (online os)\<rparr>
      else os\<lparr>online := fmdrop username (online os)\<rparr>)"

definition ListOnline :: "(string fset \<Rightarrow> string list) \<Rightarrow> online_store \<Rightarrow> string list" where
  "ListOnline ord os = ord (fmdom (online os))"

text \<open>
  The subscriber of cmd/presence-service: \<open>json.Unmarshal\<close> into a \<open>UserPresenceEvent\<close> is the
  parameter \<open>unmarshal\<close>; a message it rejects is logged and dropped.
\<close>

definition on_presence_msg ::
  "(string \<Rightarrow> go_error + (string \<times> bool)) \<Rightarrow> string \<Rightarrow> online_store \<Rightarrow> online_store" where
  "on_presence_msg unmarshal dat os =
     (case unmarshal dat of
        Inl e \<Rightarrow> os
      | Inr (username, isOnline) \<Rightarrow> SetOnline username isOnline os)"

definition on_presence_msgs ::
  "(string \<Rightarrow> go_error + (string \<times> bool)) \<Rightarrow> string list \<Rightarrow> online_store \<Rightarrow> online_store" where
  "on_presence_msgs unmarshal msgs os = fold (on_presence_msg unmarshal) msgs os"

text \<open>The last well-formed event about a user in a list of messages, \<open>b\<close> if there is none.\<close>

fun last_event :: "(string \<Rightarrow> go_error + (string \<times> bool)) \<Rightarrow> string \<Rightarrow> string list \<Rightarrow> bool \<Rightarrow> bool" where
  "last_event unmarshal u [] b = b"
| "last_event unmarshal u (m # ms) b =
     last_event unmarshal u ms
       (case unmarshal m of Inr (u', on) \<Rightarrow> if u' = u then on else b | Inl e \<Rightarrow> b)"

section \<open>Properties\<close>

text \<open>
  The presence store on disconnect: \<open>Remove(conn)\<close> takes exactly the user names registered
  with that connection offline, in whatever order the map is walked, and \<open>List\<close> then returns every
  remaining name once; users on other connections keep theirs.
\<close>

theorem PresenceStore_Remove:
  assumes "iteration_order ord" and "iteration_order ord'"
  shows "set (ps_List ord' (snd (ps_Remove ord (Some c) ps))) =
      {u. \<exists>c'. fmlookup (ps_conns ps) u = Some c' \<and> c' \<noteq> c} \<and>
    distinct (ps_List ord' (snd (ps_Remove ord (Some c) ps))) \<and>
    (\<forall>u c'. c' \<noteq> c \<longrightarrow> (fmlookup (ps_conns (snd (ps_Remove ord (Some c) ps))) u = Some c' \<longleftrightarrow>
       fmlookup (ps_conns ps) u = Some c'))"
  using assms
  by (auto simp: ps_List_def iteration_order_set iteration_order_distinct fmlookup_dom_iff ps_Remove_lookup
      split: if_splits)

theorem PresenceStore_Remove_witness:
  "set (ps_List sorted_list_of_fset (snd (ps_Remove sorted_list_of_fset (Some 7)
      (snd (ps_Add ''bob'' (Some 8) (snd (ps_Add ''alice'' (Some 7) NewInMemoryPresenceStore))))))) = {''bob''}"
  unfolding PresenceStore_Remove [OF iteration_order_sorted iteration_order_sorted, THEN conjunct1]
  by (auto simp: ps_Add_def NewInMemoryPresenceStore_def)

lemma on_presence_msg_lookup:
  "u |\<in>| fmdom (online (on_presence_msg unmarshal m os)) \<longleftrightarrow>
   (case unmarshal m of Inr (u', on) \<Rightarrow> if u' = u then on else u |\<in>| fmdom (online os)
    | Inl e \<Rightarrow> u |\<in>| fmdom (online os))"
  by (auto simp: on_presence_msg_def SetOnline_def split: sum.splits)

lemma on_presence_msgs_lookup:
  "u |\<in>| fmdom (online (on_presence_msgs unmarshal msgs os)) \<longleftrightarrow>
   last_event unmarshal u msgs (u |\<in>| fmdom (online os))"
  unfolding on_presence_msgs_def
  by (induction msgs arbitrary: os) (simp_all add: on_presence_msg_lookup)

text \<open>
  The presence service is the fold of its events: after any sequence of messages, malformed
  ones included, \<open>ListOnline\<close> returns each user whose last well-formed event said online, once, and
  nobody else.
\<close>

theorem OnlineStore_last_event:
  assumes "iteration_order ord"
  shows "set (ListOnline ord (on_presence_msgs unmarshal msgs NewOnlineStore)) =
      {u. last_event unmarshal u msgs False} \<and>
    distinct (ListOnline ord (on_presence_msgs unmarshal msgs NewOnlineStore))"
  using assms on_presence_msgs_lookup [of _ unmarshal msgs NewOnlineStore]
  by (auto simp: ListOnline_def iteration_order_set iteration_order_distinct NewOnlineStore_def)

theorem OnlineStore_last_event_witness:
  "set (ListOnline sorted_list_of_fset (on_presence_msgs
      (\<lambda>m. if m = ''bad'' then Inl (Err ''json'') else Inr (tl m, hd m = CHR ''+''))
      [''+alice'', ''+bob'', ''bad'', ''-alice''] NewOnlineStore)) = {''bob''}"
  unfolding OnlineStore_last_event [OF iteration_order_sorted, THEN conjunct1]
  by auto

end
