(* ===== verification/Repository.thy ===== *)
theory Repository
  imports Domain "HOL-Library.Multiset"
begin

text \<open>
  internal/repository: the PostgreSQL repositories, as functions on the tables of
  db/migrations. Each method is its guard on the handle, its SQL statement read as a function on
  lists of rows (with the primary keys, unique columns and foreign keys of the migrations), and
  its error wrapping.

  What PostgreSQL decides is a parameter: \<open>sql\<close> says whether the handle is nil, the driver fails the
  statement, a scan or the row iteration, or all goes well; \<open>uuid\<close> is the conversion of text to
  the UUID column type (\<open>None\<close>: invalid input syntax), in canonical form; \<open>ts\<close> is what a Go time becomes
  in a \<open>TIMESTAMP\<close> column, which has microseconds and no time zone (the driver writes the local time of the
  process); \<open>srt\<close> is what \<open>ORDER BY created_at DESC\<close> does with equal keys.
\<close>

datatype sql = NilHandle | FailsExec go_error | FailsScan go_error | FailsRows go_error | Runs

type_synonym uuid_conv = "string \<Rightarrow> string option"

type_synonym ts_conv = "time \<Rightarrow> time"

definition invalid_uuid :: go_error where
  "invalid_uuid = Err ''pq: invalid input syntax for type uuid''"

definition duplicate_key :: go_error where
  "duplicate_key = Err ''pq: duplicate key value violates unique constraint''"

definition fk_violation :: go_error where
  "fk_violation = Err ''pq: violates foreign key constraint''"

definition nil_db :: go_error where
  "nil_db = Err ''db must not be nil''"

record db_state =
  t_users :: "user list"
  t_rooms :: "room list"
  t_messages :: "message list"
  t_room_members :: "(string \<times> string) list"

definition empty_db :: db_state where
  "empty_db = \<lparr>t_users = [], t_rooms = [], t_messages = [], t_room_members = []\<rparr>"

text \<open>\<open>db.Exec\<close>: the statement's effect unless the driver fails it; errors are wrapped by the caller.\<close>

definition exec_sql ::
  "sql \<Rightarrow> string \<Rightarrow> (db_state \<Rightarrow> go_error + db_state) \<Rightarrow> db_state \<Rightarrow> go_error option \<times> db_state" where
  "exec_sql q what stmt db =
     (case q of
        NilHandle \<Rightarrow> (Some nil_db, db)
      | FailsExec e \<Rightarrow> (Some (Wrap what e), db)
      | _ \<Rightarrow> (case stmt db of Inl e \<Rightarrow> (Some (Wrap what e), db) | Inr db' \<Rightarrow> (None, db')))"

text \<open>\<open>db.QueryRow(...).Scan\<close>: \<open>sql.ErrNoRows\<close> becomes \<open>nil, nil\<close>.\<close>

definition query_row ::
  "sql \<Rightarrow> string \<Rightarrow> (db_state \<Rightarrow> go_error + 'r list) \<Rightarrow> db_state \<Rightarrow> go_error + 'r option" where
  "query_row q what stmt db =
     (case q of
        NilHandle \<Rightarrow> Inl nil_db
      | FailsExec e \<Rightarrow> Inl (Wrap what e)
      | FailsScan e \<Rightarrow> Inl (Wrap what e)
      | _ \<Rightarrow> (case stmt db of
                Inl e \<Rightarrow> Inl (Wrap what e)
              | Inr [] \<Rightarrow> Inr None
              | Inr (r # rs) \<Rightarrow> Inr (Some r)))"

text \<open>\<open>db.Query\<close> and the loop over \<open>rows.Next\<close>, \<open>rows.Scan\<close>, \<open>rows.Err\<close>.\<close>

definition query_rows ::
  "sql \<Rightarrow> string \<Rightarrow> string \<Rightarrow> string \<Rightarrow> (db_state \<Rightarrow> go_error + 'r list) \<Rightarrow> db_state \<Rightarrow> go_error + 'r list" where
  "query_rows q what_query what_scan what_rows stmt db =
     (case q of
        NilHandle \<Rightarrow> Inl nil_db
      | FailsExec e \<Rightarrow> Inl (Wrap what_query e)
      | _ \<Rightarrow> (case stmt db of
                Inl e \<Rightarrow> Inl (Wrap what_query e)
              | Inr rs \<Rightarrow>
                  (case q of
                     FailsScan e \<Rightarrow> if rs = [] then Inr [] else Inl (Wrap what_scan e)
                   | FailsRows e \<Rightarrow> Inl (Wrap what_rows e)
                   | _ \<Rightarrow> Inr rs)))"

section \<open>Users\<close>

definition UserRepo_Create :: "uuid_conv \<Rightarrow> ts_conv \<Rightarrow> sql \<Rightarrow> user \<Rightarrow> db_state \<Rightarrow> go_error option \<times> db_state" where
  "UserRepo_Create uuid ts q u =
     exec_sql q ''failed to execute create user query'' (\<lambda>db.
       case uuid (user_ID u) of
         None \<Rightarrow> Inl invalid_uuid
       | Some i \<Rightarrow>
           if \<exists>r \<in> set (t_users db). user_ID r = i \<or> Username r = Username u then Inl duplicate_key
           else Inr (db\<lparr>t_users := t_users db @ [u\<lparr>user_ID := i, user_CreatedAt := ts (user_CreatedAt u), user_DeletedAt := None\<rparr>]\<rparr>))"

definition UserRepo_FindByUsername :: "sql \<Rightarrow> string \<Rightarrow> db_state \<Rightarrow> go_error + user option" where
  "UserRepo_FindByUsername q username =
     query_row q ''failed to scan user'' (\<lambda>db.
       Inr (filter (\<lambda>r. Username r = username \<and> user_DeletedAt r = None) (t_users db)))"

text \<open>
  \<open>FindByID\<close> passes its still empty local variable \<open>username\<close> to the query, not its argument
  \<open>id\<close>; the record it returns carries the argument as its ID.
\<close>

definition UserRepo_FindByID :: "uuid_conv \<Rightarrow> sql \<Rightarrow> string \<Rightarrow> db_state \<Rightarrow> go_error + user option" where
  "UserRepo_FindByID uuid q id_arg =
     (let username = '''' in
      query_row q ''failed to scan user'' (\<lambda>db.
        case uuid username of
          None \<Rightarrow> Inl invalid_uuid
        | Some i \<Rightarrow>
            Inr (map (\<lambda>r. r\<lparr>user_ID := id_arg\<rparr>)
                  (filter (\<lambda>r. user_ID r = i \<and> user_DeletedAt r = None) (t_users db)))))"

section \<open>Rooms\<close>

definition RoomRepo_Create :: "uuid_conv \<Rightarrow> ts_conv \<Rightarrow> sql \<Rightarrow> room \<Rightarrow> db_state \<Rightarrow> go_error option \<times> db_state" where
  "RoomRepo_Create uuid ts q rm =
     exec_sql q ''failed to execute create room query'' (\<lambda>db.
       case uuid (room_ID rm) of
         None \<Rightarrow> Inl invalid_uuid
       | Some i \<Rightarrow>
           if \<exists>r \<in> set (t_rooms db). room_ID r = i \<or> Name r = Name rm then Inl duplicate_key
           else Inr (db\<lparr>t_rooms := t_rooms db @ [rm\<lparr>room_ID := i, room_CreatedAt := ts (room_CreatedAt rm), room_DeletedAt := None\<rparr>]\<rparr>))"

definition RoomRepo_FindByRoomName :: "sql \<Rightarrow> string \<Rightarrow> db_state \<Rightarrow> go_error + room option" where
  "RoomRepo_FindByRoomName q roomName =
     query_row q ''failed to scan room'' (\<lambda>db.
       Inr (filter (\<lambda>r. Name r = roomName \<and> room_DeletedAt r = None) (t_rooms db)))"

definition RoomRepo_FindByRoomID :: "uuid_conv \<Rightarrow> sql \<Rightarrow> string \<Rightarrow> db_state \<Rightarrow> go_error + room option" where
  "RoomRepo_FindByRoomID uuid q roomID =
     query_row q ''failed to scan room'' (\<lambda>db.
       case uuid roomID of
         None \<Rightarrow> Inl invalid_uuid
       | Some i \<Rightarrow>
           Inr (map (\<lambda>r. r\<lparr>room_ID := roomID\<rparr>)
                 (filter (\<lambda>r. room_ID r = i \<and> room_DeletedAt r = None) (t_rooms db))))"

section \<open>Room members\<close>

definition MemberRepo_Add :: "uuid_conv \<Rightarrow> sql \<Rightarrow> string \<Rightarrow> string \<Rightarrow> db_state \<Rightarrow> go_error option \<times> db_state" where
  "MemberRepo_Add uuid q roomID userID =
     exec_sql q ''failed to execute add room member query'' (\<lambda>db.
       case (uuid roomID, uuid userID) of
         (Some r, Some u) \<Rightarrow>
           if (r, u) \<in> set (t_room_members db) then Inl duplicate_key
           else if r \<notin> room_ID ` set (t_rooms db) \<or> u \<notin> user_ID ` set (t_users db) then Inl fk_violation
           else Inr (db\<lparr>t_room_members := t_room_members db @ [(r, u)]\<rparr>)
       | _ \<Rightarrow> Inl invalid_uuid)"

definition MemberRepo_Remove :: "uuid_conv \<Rightarrow> sql \<Rightarrow> string \<Rightarrow> string \<Rightarrow> db_state \<Rightarrow> go_error option \<times> db_state" where
  "MemberRepo_Remove uuid q roomID userID =
     exec_sql q ''failed to execute remove room member query'' (\<lambda>db.
       case (uuid roomID, uuid userID) of
         (Some r, Some u) \<Rightarrow> Inr (db\<lparr>t_room_members := filter (\<lambda>p. p \<noteq> (r, u)) (t_room_members db)\<rparr>)
       | _ \<Rightarrow> Inl invalid_uuid)"

definition MemberRepo_ListByRoom :: "uuid_conv \<Rightarrow> sql \<Rightarrow> string \<Rightarrow> db_state \<Rightarrow> go_error + string list" where
  "MemberRepo_ListByRoom uuid q roomID =
     query_rows q ''failed to query room_members table'' ''failed to scan row in room_members''
       ''failed to iterate room_members rows'' (\<lambda>db.
       case uuid roomID of
         None \<Rightarrow> Inl invalid_uuid
       | Some r \<Rightarrow> Inr (map snd (filter (\<lambda>p. fst p = r) (t_room_members db))))"

definition MemberRepo_ListByUser :: "uuid_conv \<Rightarrow> sql \<Rightarrow> string \<Rightarrow> db_state \<Rightarrow> go_error + string list" where
  "MemberRepo_ListByUser uuid q userID =
     query_rows q ''failed to query room_members table'' ''failed to scan row in room_members''
       ''failed to iterate room_members rows'' (\<lambda>db.
       case uuid userID of
         None \<Rightarrow> Inl invalid_uuid
       | Some u \<Rightarrow> Inr (map fst (filter (\<lambda>p. snd p = u) (t_room_members db))))"

section \<open>Messages\<close>

definition MessageRepo_Create :: "uuid_conv \<Rightarrow> ts_conv \<Rightarrow> sql \<Rightarrow> message \<Rightarrow> db_state \<Rightarrow> go_error option \<times> db_state" where
  "MessageRepo_Create uuid ts q msg db =
     (if q = NilHandle then (Some nil_db, db)
      else if SenderID msg = SystemSenderID then (None, db)
      else exec_sql q ''failed to execute create message query'' (\<lambda>db.
        case (uuid (msg_ID msg), uuid (SenderID msg), uuid (RoomID msg)) of
          (Some i, Some s, Some r) \<Rightarrow>
            if i \<in> msg_ID ` set (t_messages db) then Inl duplicate_key
            else if s \<notin> user_ID ` set (t_users db) \<or> r \<notin> room_ID ` set (t_rooms db) then Inl fk_violation
            else Inr (db\<lparr>t_messages := t_messages db @
                   [msg\<lparr>msg_ID := i, SenderID := s, RoomID := r, From := '''',
                       msg_CreatedAt := ts (msg_CreatedAt msg), msg_DeletedAt := None\<rparr>]\<rparr>)
        | _ \<Rightarrow> Inl invalid_uuid) db)"

text \<open>\<open>messages m JOIN users u ON u.id = m.sender_id\<close>, with \<open>From\<close> filled in from the user.\<close>

definition join_sender :: "db_state \<Rightarrow> message list \<Rightarrow> message list" where
  "join_sender db ms =
     concat (map (\<lambda>m. map (\<lambda>u. m\<lparr>From := Username u\<rparr>)
                        (filter (\<lambda>u. user_ID u = SenderID m) (t_users db))) ms)"

definition MessageRepo_ListByRoom ::
  "(message list \<Rightarrow> message list) \<Rightarrow> uuid_conv \<Rightarrow> sql \<Rightarrow> string \<Rightarrow> nat \<Rightarrow> db_state \<Rightarrow> go_error + message list" where
  "MessageRepo_ListByRoom srt uuid q roomID lim =
     query_rows q ''failed to query messages table'' ''failed to scan row in messages''
       ''failed to iterate messages row'' (\<lambda>db.
       case uuid roomID of
         None \<Rightarrow> Inl invalid_uuid
       | Some r \<Rightarrow>
           Inr (take lim (srt (filter (\<lambda>m. RoomID m = r \<and> msg_DeletedAt m = None)
                                 (join_sender db (t_messages db))))))"

definition MessageRepo_ListUndelivered ::
  "uuid_conv \<Rightarrow> sql \<Rightarrow> string \<Rightarrow> db_state \<Rightarrow> go_error + message list" where
  "MessageRepo_ListUndelivered uuid q userID =
     query_rows q ''failed to query messages table'' ''failed to scan row in messages''
       ''failed to iterate messages row'' (\<lambda>db.
       case uuid userID of
         None \<Rightarrow> Inl invalid_uuid
       | Some u \<Rightarrow>
           Inr (filter (\<lambda>m. (RoomID m, u) \<in> set (t_room_members db) \<and> SenderID m \<noteq> u \<and>
                           (\<exists>r \<in> set (t_rooms db). room_ID r = RoomID m \<and> IsPrivate r) \<and>
                           \<not> Delivered m \<and> msg_DeletedAt m = None)
                  (join_sender db (t_messages db))))"

definition MessageRepo_MarkDelivered :: "uuid_conv \<Rightarrow> sql \<Rightarrow> string \<Rightarrow> db_state \<Rightarrow> go_error option \<times> db_state" where
  "MessageRepo_MarkDelivered uuid q msgID =
     exec_sql q ''failed to execute update message query'' (\<lambda>db.
       case uuid msgID of
         None \<Rightarrow> Inl invalid_uuid
       | Some i \<Rightarrow> Inr (db\<lparr>t_messages :=
           map (\<lambda>m. if msg_ID m = i then m\<lparr>Delivered := True\<rparr> else m) (t_messages db)\<rparr>))"

definition MessageRepo_SoftDelete :: "uuid_conv \<Rightarrow> time \<Rightarrow> sql \<Rightarrow> string \<Rightarrow> db_state \<Rightarrow> go_error option \<times> db_state" where
  "MessageRepo_SoftDelete uuid now q msgID =
     exec_sql q ''failed to execute update message query'' (\<lambda>db.
       case uuid msgID of
         None \<Rightarrow> Inl invalid_uuid
       | Some i \<Rightarrow> Inr (db\<lparr>t_messages :=
           map (\<lambda>m. if msg_ID m = i \<and> msg_DeletedAt m = None then m\<lparr>msg_DeletedAt := Some now\<rparr> else m)
             (t_messages db)\<rparr>))"

section \<open>The schema invariant\<close>

text \<open>Primary keys and unique columns are unique, foreign keys point to rows.\<close>

definition db_inv :: "db_state \<Rightarrow> bool" where
  "db_inv db \<longleftrightarrow>
     distinct (map user_ID (t_users db)) \<and> distinct (map Username (t_users db)) \<and>
     distinct (map room_ID (t_rooms db)) \<and> distinct (map Name (t_rooms db)) \<and>
     distinct (map msg_ID (t_messages db)) \<and> distinct (t_room_members db) \<and>
     (\<forall>m \<in> set (t_messages db). SenderID m \<in> user_ID ` set (t_users db) \<and> RoomID m \<in> room_ID ` set (t_rooms db)) \<and>
     (\<forall>(r, u) \<in> set (t_room_members db). r \<in> room_ID ` set (t_rooms db) \<and> u \<in> user_ID ` set (t_users db))"

lemma empty_db_inv: "db_inv empty_db"
  by (simp add: db_inv_def empty_db_def)

lemma exec_sql_cases:
  assumes "exec_sql q what stmt db = (res, db')"
  obtains (ok) "res = None" "stmt db = Inr db'" | (failed) e where "res = Some e" "db' = db"
  using assms by (cases q; cases "stmt db") (auto simp: exec_sql_def)

lemma exec_sql_Runs:
  "exec_sql Runs what stmt db =
   (case stmt db of Inl e \<Rightarrow> (Some (Wrap what e), db) | Inr db' \<Rightarrow> (None, db'))"
  by (simp add: exec_sql_def)

lemma exec_sql_inv:
  assumes "db_inv db" and "\<And>db'. db_inv db \<Longrightarrow> stmt db = Inr db' \<Longrightarrow> db_inv db'"
  shows "db_inv (snd (exec_sql q what stmt db))"
  using assms by (cases "exec_sql q what stmt db") (auto elim: exec_sql_cases)

lemma UserRepo_Create_inv: "db_inv db \<Longrightarrow> db_inv (snd (UserRepo_Create uuid ts q u db))"
  unfolding UserRepo_Create_def
  by (erule exec_sql_inv) (auto simp: db_inv_def split: option.splits if_splits, blast)

lemma RoomRepo_Create_inv: "db_inv db \<Longrightarrow> db_inv (snd (RoomRepo_Create uuid ts q rm db))"
  unfolding RoomRepo_Create_def
  by (erule exec_sql_inv) (auto simp: db_inv_def split: option.splits if_splits, blast)

lemma MessageRepo_Create_inv: "db_inv db \<Longrightarrow> db_inv (snd (MessageRepo_Create uuid ts q msg db))"
  unfolding MessageRepo_Create_def
  by (auto split: if_splits intro!: exec_sql_inv) (auto simp: db_inv_def split: option.splits if_splits)

lemma MemberRepo_Add_inv: "db_inv db \<Longrightarrow> db_inv (snd (MemberRepo_Add uuid q roomID userID db))"
  unfolding MemberRepo_Add_def
  by (erule exec_sql_inv) (auto simp: db_inv_def split: option.splits if_splits)

lemma MemberRepo_Remove_inv: "db_inv db \<Longrightarrow> db_inv (snd (MemberRepo_Remove uuid q roomID userID db))"
  unfolding MemberRepo_Remove_def
  by (erule exec_sql_inv) (auto simp: db_inv_def split: option.splits)

lemma map_messages_inv:
  assumes "db_inv db" and "\<And>m. msg_ID (f m) = msg_ID m \<and> SenderID (f m) = SenderID m \<and> RoomID (f m) = RoomID m"
  shows "db_inv (db\<lparr>t_messages := map f (t_messages db)\<rparr>)"
proof -
  have "msg_ID \<circ> f = msg_ID"
    using assms(2) by auto
  then show ?thesis
    using assms unfolding db_inv_def by auto
qed

lemma MessageRepo_MarkDelivered_inv:
  "db_inv db \<Longrightarrow> db_inv (snd (MessageRepo_MarkDelivered uuid q msgID db))"
  unfolding MessageRepo_MarkDelivered_def
  by (erule exec_sql_inv) (auto split: option.splits intro: map_messages_inv)

lemma MessageRepo_SoftDelete_inv:
  "db_inv db \<Longrightarrow> db_inv (snd (MessageRepo_SoftDelete uuid now q msgID db))"
  unfolding MessageRepo_SoftDelete_def
  by (erule exec_sql_inv) (auto split: option.splits intro: map_messages_inv)

section \<open>The repository interfaces\<close>

text \<open>
  repository.RoomRepository and repository.UserRepository as records of operations on an
  abstract store, the way their clients receive them, and as locales with the laws the clients
  rely on. \<open>active s n\<close> is the non-deleted row with name \<open>n\<close>; \<open>canonical\<close> says which new rows the store
  accepts as they are (here: a fresh row whose ID is a UUID in canonical form), and \<open>kept\<close> what it keeps of
  them: all but the resolution of the time.
\<close>

record 's room_repo =
  FindByRoomName :: "string \<Rightarrow> 's \<Rightarrow> go_error + room option"
  FindByRoomID :: "string \<Rightarrow> 's \<Rightarrow> go_error + room option"
  CreateRoom :: "room \<Rightarrow> 's \<Rightarrow> go_error option \<times> 's"

record 's user_repo =
  FindByUsername :: "string \<Rightarrow> 's \<Rightarrow> go_error + user option"
  FindByID :: "string \<Rightarrow> 's \<Rightarrow> go_error + user option"
  CreateUser :: "user \<Rightarrow> 's \<Rightarrow> go_error option \<times> 's"

definition pg_room_repo :: "uuid_conv \<Rightarrow> ts_conv \<Rightarrow> sql \<Rightarrow> db_state room_repo" where
  "pg_room_repo uuid ts q =
     \<lparr>FindByRoomName = RoomRepo_FindByRoomName q, FindByRoomID = RoomRepo_FindByRoomID uuid q,
      CreateRoom = RoomRepo_Create uuid ts q\<rparr>"

definition pg_user_repo :: "uuid_conv \<Rightarrow> ts_conv \<Rightarrow> sql \<Rightarrow> db_state user_repo" where
  "pg_user_repo uuid ts q =
     \<lparr>FindByUsername = UserRepo_FindByUsername q, FindByID = UserRepo_FindByID uuid q,
      CreateUser = UserRepo_Create uuid ts q\<rparr>"

locale room_repository =
  fixes R :: "'s room_repo"
    and inv :: "'s \<Rightarrow> bool"
    and active :: "'s \<Rightarrow> string \<Rightarrow> room option"
    and canonical :: "room \<Rightarrow> bool"
    and kept :: "room \<Rightarrow> room"
  assumes find_active: "inv s \<Longrightarrow> FindByRoomName R n s = Inr res \<Longrightarrow> res = active s n"
    and active_name: "active s n = Some rm \<Longrightarrow> Name rm = n"
    and create_ok: "inv s \<Longrightarrow> canonical rm \<Longrightarrow> CreateRoom R rm s = (None, s') \<Longrightarrow>
      inv s' \<and> active s' = (active s)(Name rm \<mapsto> kept rm)"
    and kept_ID: "room_ID (kept rm) = room_ID rm"
    and create_failed: "CreateRoom R rm s = (Some e, s') \<Longrightarrow> s' = s"

locale user_repository =
  fixes R :: "'s user_repo"
    and inv :: "'s \<Rightarrow> bool"
    and active :: "'s \<Rightarrow> string \<Rightarrow> user option"
    and canonical :: "user \<Rightarrow> bool"
    and kept :: "user \<Rightarrow> user"
  assumes find_active: "inv s \<Longrightarrow> FindByUsername R n s = Inr res \<Longrightarrow> res = active s n"
    and active_name: "active s n = Some u \<Longrightarrow> Username u = n"
    and create_ok: "inv s \<Longrightarrow> canonical u \<Longrightarrow> CreateUser R u s = (None, s') \<Longrightarrow>
      inv s' \<and> active s' = (active s)(Username u \<mapsto> kept u)"
    and kept_fields: "user_ID (kept u) = user_ID u" "PasswordHash (kept u) = PasswordHash u"
    and create_failed: "CreateUser R u s = (Some e, s') \<Longrightarrow> s' = s"
    and create_taken: "inv s \<Longrightarrow> active s (Username u) = Some u' \<Longrightarrow> \<exists>e. CreateUser R u s = (Some e, s)"

definition active_room :: "db_state \<Rightarrow> string \<Rightarrow> room option" where
  "active_room db n = find (\<lambda>r. Name r = n \<and> room_DeletedAt r = None) (t_rooms db)"

definition active_user :: "db_state \<Rightarrow> string \<Rightarrow> user option" where
  "active_user db n = find (\<lambda>u. Username u = n \<and> user_DeletedAt u = None) (t_users db)"

definition canonical_room :: "uuid_conv \<Rightarrow> room \<Rightarrow> bool" where
  "canonical_room uuid rm \<longleftrightarrow> uuid (room_ID rm) = Some (room_ID rm) \<and> room_DeletedAt rm = None"

definition canonical_user :: "uuid_conv \<Rightarrow> user \<Rightarrow> bool" where
  "canonical_user uuid u \<longleftrightarrow> uuid (user_ID u) = Some (user_ID u) \<and> user_DeletedAt u = None"

definition kept_room :: "ts_conv \<Rightarrow> room \<Rightarrow> room" where
  "kept_room ts rm = rm\<lparr>room_CreatedAt := ts (room_CreatedAt rm)\<rparr>"

definition kept_user :: "ts_conv \<Rightarrow> user \<Rightarrow> user" where
  "kept_user ts u = u\<lparr>user_CreatedAt := ts (user_CreatedAt u)\<rparr>"

lemma find_filter: "(case filter P xs of [] \<Rightarrow> Inr None | x # ys \<Rightarrow> Inr (Some x)) = Inr (find P xs)"
  by (induction xs) auto

lemma find_snoc: "find P (xs @ [x]) = (case find P xs of None \<Rightarrow> if P x then Some x else None | Some y \<Rightarrow> Some y)"
  by (induction xs) auto

lemma find_SomeD: "find P xs = Some x \<Longrightarrow> P x \<and> x \<in> set xs"
  by (induction xs) (auto split: if_splits)

lemma find_None_set: "\<forall>x \<in> set xs. \<not> P x \<Longrightarrow> find P xs = None"
  by (simp add: find_None_iff)

interpretation pg_rooms: room_repository "pg_room_repo uuid ts q" db_inv active_room "canonical_room uuid" "kept_room ts" for uuid ts q
proof unfold_locales
  fix s s' :: db_state and rm :: room
  assume inv: "db_inv s" and c: "canonical_room uuid rm"
    and cr: "CreateRoom (pg_room_repo uuid ts q) rm s = (None, s')"
  have new: "\<forall>r \<in> set (t_rooms s). room_ID r \<noteq> room_ID rm \<and> Name r \<noteq> Name rm"
    and s': "s' = s\<lparr>t_rooms := t_rooms s @ [kept_room ts rm]\<rparr>"
    using cr c by (auto simp: kept_room_def pg_room_repo_def RoomRepo_Create_def canonical_room_def elim!: exec_sql_cases
        split: option.splits if_splits)
  have "active_room s' n = ((active_room s)(Name rm \<mapsto> kept_room ts rm)) n" for n
    using new c by (auto simp: s' active_room_def kept_room_def canonical_room_def find_snoc find_None_set split: option.splits)
  moreover have "db_inv s'"
    using RoomRepo_Create_inv [OF inv, of uuid ts q rm] cr by (simp add: pg_room_repo_def)
  ultimately show "db_inv s' \<and> active_room s' = (active_room s)(Name rm \<mapsto> kept_room ts rm)" by auto
qed (auto simp: pg_room_repo_def RoomRepo_FindByRoomName_def query_row_def find_filter active_room_def
    RoomRepo_Create_def kept_room_def elim: exec_sql_cases dest: find_SomeD split: sql.splits)

interpretation pg_users: user_repository "pg_user_repo uuid ts q" db_inv active_user "canonical_user uuid" "kept_user ts" for uuid ts q
proof unfold_locales
  fix s s' :: db_state and u :: user
  assume inv: "db_inv s" and c: "canonical_user uuid u"
    and cr: "CreateUser (pg_user_repo uuid ts q) u s = (None, s')"
  have new: "\<forall>r \<in> set (t_users s). user_ID r \<noteq> user_ID u \<and> Username r \<noteq> Username u"
    and s': "s' = s\<lparr>t_users := t_users s @ [kept_user ts u]\<rparr>"
    using cr c by (auto simp: kept_user_def pg_user_repo_def UserRepo_Create_def canonical_user_def elim!: exec_sql_cases
        split: option.splits if_splits)
  have "active_user s' n = ((active_user s)(Username u \<mapsto> kept_user ts u)) n" for n
    using new c by (auto simp: s' active_user_def kept_user_def canonical_user_def find_snoc find_None_set split: option.splits)
  moreover have "db_inv s'"
    using UserRepo_Create_inv [OF inv, of uuid ts q u] cr by (simp add: pg_user_repo_def)
  ultimately show "db_inv s' \<and> active_user s' = (active_user s)(Username u \<mapsto> kept_user ts u)" by auto
next
  fix s :: db_state and u u' :: user
  assume "active_user s (Username u) = Some u'"
  then show "\<exists>e. CreateUser (pg_user_repo uuid ts q) u s = (Some e, s)"
    by (auto simp: pg_user_repo_def UserRepo_Create_def exec_sql_def active_user_def
        dest!: find_SomeD split: option.splits sql.splits)
qed (auto simp: pg_user_repo_def UserRepo_FindByUsername_def query_row_def find_filter active_user_def
    UserRepo_Create_def kept_user_def elim: exec_sql_cases dest: find_SomeD split: sql.splits)

section \<open>Properties\<close>

text \<open>
  C31. Round trip of accounts: in a database that satisfies the schema, storing a new user whose
  ID is a UUID in canonical form succeeds exactly when no row, soft-deleted rows included, has its
  ID or name; then \<open>FindByUsername\<close> returns for its name that user, with the creation time as the column
  keeps it, and for every other name what it returned before.
\<close>

theorem UserRepo_roundtrip:
  assumes "db_inv db" and "uuid (user_ID u) = Some (user_ID u)" and "user_DeletedAt u = None"
  shows "(fst (UserRepo_Create uuid ts Runs u db) = None \<longleftrightarrow>
           (\<forall>r \<in> set (t_users db). user_ID r \<noteq> user_ID u \<and> Username r \<noteq> Username u)) \<and>
    (fst (UserRepo_Create uuid ts Runs u db) = None \<longrightarrow>
       (\<forall>n. UserRepo_FindByUsername Runs n (snd (UserRepo_Create uuid ts Runs u db)) =
            (if n = Username u then Inr (Some (u\<lparr>user_CreatedAt := ts (user_CreatedAt u)\<rparr>))
             else UserRepo_FindByUsername Runs n db)))"
proof
  show "fst (UserRepo_Create uuid ts Runs u db) = None \<longleftrightarrow>
      (\<forall>r \<in> set (t_users db). user_ID r \<noteq> user_ID u \<and> Username r \<noteq> Username u)"
    using assms(2) by (auto simp: UserRepo_Create_def exec_sql_Runs)
  have c: "canonical_user uuid u" using assms by (simp add: canonical_user_def)
  have find: "UserRepo_FindByUsername Runs n s = Inr (active_user s n)" for n s
    by (simp add: UserRepo_FindByUsername_def query_row_def find_filter active_user_def)
  note create = pg_users.create_ok [OF assms(1) c, unfolded pg_user_repo_def kept_user_def, simplified]
  show "fst (UserRepo_Create uuid ts Runs u db) = None \<longrightarrow>
       (\<forall>n. UserRepo_FindByUsername Runs n (snd (UserRepo_Create uuid ts Runs u db)) =
            (if n = Username u then Inr (Some (u\<lparr>user_CreatedAt := ts (user_CreatedAt u)\<rparr>))
             else UserRepo_FindByUsername Runs n db))"
    using find create assms(1) by (cases "UserRepo_Create uuid ts Runs u db") auto
qed

text \<open>A column that cuts off at microseconds, in a process that runs in UTC.\<close>

fun to_micros :: ts_conv where
  "to_micros (Time n) = Time (n div 1000 * 1000)"

theorem UserRepo_roundtrip_witness:
  "UserRepo_FindByUsername Runs ''alice''
     (snd (UserRepo_Create Some to_micros Runs (NewUser ''u1'' (Time 1234567) ''alice'' ''h'') empty_db)) =
   Inr (Some (NewUser ''u1'' (Time 1234000) ''alice'' ''h''))"
proof -
  let ?u = "NewUser ''u1'' (Time 1234567) ''alice'' ''h''"
  have "db_inv empty_db" "Some (user_ID ?u) = Some (user_ID ?u)" "user_DeletedAt ?u = None"
    by (simp_all add: db_inv_def empty_db_def NewUser_def)
  from UserRepo_roundtrip [of empty_db Some ?u to_micros, OF this] show ?thesis
    by (simp add: empty_db_def NewUser_def)
qed

text \<open>
  \<open>FindByID\<close> never finds anybody: it looks up the empty string instead of its argument, which
  is no UUID, so for every ID, those of existing users included, it returns the error of the scan.
\<close>

theorem UserRepo_FindByID_fails:
  assumes "uuid '''' = None"
  shows "UserRepo_FindByID uuid Runs uid db = Inl (Wrap ''failed to scan user'' invalid_uuid)"
  using assms by (simp add: UserRepo_FindByID_def query_row_def Let_def)

theorem UserRepo_FindByID_fails_witness:
  "UserRepo_FindByID (\<lambda>s. if s = '''' then None else Some s) Runs ''u1''
     (empty_db\<lparr>t_users := [NewUser ''u1'' (Time 0) ''alice'' ''h'']\<rparr>) =
   Inl (Wrap ''failed to scan user'' invalid_uuid)"
  by (rule UserRepo_FindByID_fails) simp

text \<open>\<open>ORDER BY created_at DESC\<close>: some reordering that is descending in \<open>created_at\<close>.\<close>

definition desc_sorter :: "(message list \<Rightarrow> message list) \<Rightarrow> bool" where
  "desc_sorter srt \<longleftrightarrow>
     (\<forall>ms. mset (srt ms) = mset ms \<and> sorted_wrt (\<lambda>a b. msg_CreatedAt b \<le> msg_CreatedAt a) (srt ms))"

definition sort_desc :: "message list \<Rightarrow> message list" where
  "sort_desc ms = rev (sort_key msg_CreatedAt ms)"

lemma sort_desc_sorter: "desc_sorter sort_desc"
  unfolding desc_sorter_def
proof (intro allI conjI)
  fix ms
  show "mset (sort_desc ms) = mset ms" by (simp add: sort_desc_def)
  have "sorted_wrt (\<lambda>a b. msg_CreatedAt a \<le> msg_CreatedAt b) (sort_key msg_CreatedAt ms)"
    using sorted_sort_key [of msg_CreatedAt ms] by (simp only: sorted_map)
  then show "sorted_wrt (\<lambda>a b. msg_CreatedAt b \<le> msg_CreatedAt a) (sort_desc ms)"
    by (simp add: sort_desc_def sorted_wrt_rev)
qed

text \<open>The name of the account with a given ID.\<close>

definition sender_name :: "db_state \<Rightarrow> string \<Rightarrow> string" where
  "sender_name db i = (case find (\<lambda>u. user_ID u = i) (t_users db) of None \<Rightarrow> '''' | Some u \<Rightarrow> Username u)"

definition visible_messages :: "db_state \<Rightarrow> string \<Rightarrow> message list" where
  "visible_messages db r =
     map (\<lambda>m. m\<lparr>From := sender_name db (SenderID m)\<rparr>)
       (filter (\<lambda>m. RoomID m = r \<and> msg_DeletedAt m = None) (t_messages db))"

lemma filter_unique:
  "distinct (map f xs) \<Longrightarrow> x \<in> set xs \<Longrightarrow> filter (\<lambda>y. f y = f x) xs = [x]"
  by (induction xs) (auto simp: filter_empty_conv image_iff)

lemma join_sender_eq:
  assumes "distinct (map user_ID (t_users db))" and "\<forall>m \<in> set ms. SenderID m \<in> user_ID ` set (t_users db)"
  shows "join_sender db ms = map (\<lambda>m. m\<lparr>From := sender_name db (SenderID m)\<rparr>) ms"
  using assms(2)
proof (induction ms)
  case (Cons m ms)
  then obtain u where u: "u \<in> set (t_users db)" "user_ID u = SenderID m" by auto
  have f: "filter (\<lambda>v. user_ID v = SenderID m) (t_users db) = [u]"
    using filter_unique [OF assms(1) u(1)] u(2) by simp
  have "(Inr (find (\<lambda>v. user_ID v = SenderID m) (t_users db)) :: go_error + user option) = Inr (Some u)"
    using find_filter [of "\<lambda>v. user_ID v = SenderID m" "t_users db"] f by simp
  then have "sender_name db (SenderID m) = Username u"
    by (simp add: sender_name_def)
  with Cons f show ?case by (simp add: join_sender_def)
qed (simp add: join_sender_def)

lemma visible_messages_eq:
  assumes "db_inv db"
  shows "filter (\<lambda>m. RoomID m = r \<and> msg_DeletedAt m = None) (join_sender db (t_messages db)) = visible_messages db r"
proof -
  have "join_sender db (t_messages db) =
      map (\<lambda>m. m\<lparr>From := sender_name db (SenderID m)\<rparr>) (t_messages db)"
    using assms by (intro join_sender_eq) (auto simp: db_inv_def)
  then show ?thesis by (simp add: visible_messages_def filter_map comp_def)
qed

text \<open>
  C32. The history query: in a database that satisfies the schema \<open>ListByRoom\<close> returns the newest
  \<open>limit\<close> visible messages of the room (those not soft-deleted, each once, under its sender's
  current name), newest first: whatever is left out is no newer than anything returned, and
  nothing is left out below the limit.
\<close>

theorem ListByRoom_newest:
  assumes "db_inv db" and "desc_sorter srt" and "uuid roomID = Some r"
  shows "\<exists>ms rest. MessageRepo_ListByRoom srt uuid Runs roomID lim db = Inr ms \<and>
    mset (ms @ rest) = mset (visible_messages db r) \<and>
    length ms = min lim (length (visible_messages db r)) \<and>
    sorted_wrt (\<lambda>a b. msg_CreatedAt b \<le> msg_CreatedAt a) ms \<and>
    (\<forall>m \<in> set ms. \<forall>m' \<in> set rest. msg_CreatedAt m' \<le> msg_CreatedAt m)"
proof (intro exI conjI)
  let ?vis = "visible_messages db r"
  let ?s = "srt ?vis"
  have s: "mset ?s = mset ?vis" "sorted_wrt (\<lambda>a b. msg_CreatedAt b \<le> msg_CreatedAt a) ?s"
    using assms(2) by (simp_all add: desc_sorter_def)
  then have len: "length ?s = length ?vis" by (metis size_mset)
  show "MessageRepo_ListByRoom srt uuid Runs roomID lim db = Inr (take lim ?s)"
    using assms(1,3) by (simp add: MessageRepo_ListByRoom_def query_rows_def visible_messages_eq)
  show "mset (take lim ?s @ drop lim ?s) = mset ?vis" using s(1) by simp
  show "length (take lim ?s) = min lim (length ?vis)" using len by simp
  show "sorted_wrt (\<lambda>a b. msg_CreatedAt b \<le> msg_CreatedAt a) (take lim ?s)"
    using s(2) by (rule sorted_wrt_take)
  show "\<forall>m \<in> set (take lim ?s). \<forall>m' \<in> set (drop lim ?s). msg_CreatedAt m' \<le> msg_CreatedAt m"
    using s(2) by (metis append_take_drop_id sorted_wrt_append)
qed

theorem ListByRoom_newest_witness:
  "\<exists>db ms. length (t_messages db) = 2 \<and> MessageRepo_ListByRoom sort_desc Some Runs ''r1'' 1 db = Inr ms \<and> length ms = 1"
proof -
  let ?u = "NewUser ''u1'' (Time 0) ''alice'' ''h''"
  let ?m = "domain_NewMessage ''m1'' (Time 1) ''u1'' ''r1'' '''' ''hi''"
  let ?n = "domain_NewMessage ''m2'' (Time 2) ''u1'' ''r1'' '''' ''yo''"
  let ?db = "\<lparr>t_users = [?u], t_rooms = [NewRoom ''r1'' (Time 0) ''lobby''], t_messages = [?m, ?n], t_room_members = []\<rparr>"
  have "db_inv ?db"
    by (simp add: db_inv_def NewUser_def NewRoom_def domain_NewMessage_def)
  from ListByRoom_newest [OF this sort_desc_sorter, of Some "''r1''" "''r1''" 1]
  obtain ms where "MessageRepo_ListByRoom sort_desc Some Runs ''r1'' 1 ?db = Inr ms"
    "length ms = min 1 (length (visible_messages ?db ''r1''))" by auto
  moreover have "length (visible_messages ?db ''r1'') = 2"
    by (simp add: visible_messages_def domain_NewMessage_def)
  ultimately show ?thesis by (intro exI [of _ ?db] exI [of _ ms]) simp
qed

end
