(* ===== verification/Cleanup.thy ===== *)
theory Cleanup
  imports Repository Float64 "HOL-Library.Word"
begin

text \<open>
  internal/db/cleanup.go and the retention setting of cmd/server/main.go: the daily deletion of
  old messages and of soft-deleted rooms. The retention is a 64-bit \<open>time.Duration\<close>, computed with
  wrap-around from the number of days in the environment; \<open>runCleanup\<close> turns it back into days in
  float64. PostgreSQL's \<open>NOW() - INTERVAL '1 day' * $1\<close> is the parameter \<open>ago\<close>.
\<close>

section \<open>The retention setting\<close>

definition is_digit :: "char \<Rightarrow> bool" where
  "is_digit c \<longleftrightarrow> 48 \<le> (of_char c :: nat) \<and> (of_char c :: nat) \<le> 57"

text \<open>\<open>strconv.Atoi\<close> on a 64-bit platform; \<open>None\<close> is any error.\<close>

definition Atoi :: "string \<Rightarrow> int option" where
  "Atoi s =
     (let (neg, ds) = (case s of c # t \<Rightarrow> if c = CHR ''-'' then (True, t) else if c = CHR ''+'' then (False, t)
                                         else (False, s) | [] \<Rightarrow> (False, s));
          n = foldl (\<lambda>n c. 10 * n + (of_char c - 48)) 0 ds;
          v = (if neg then - n else n)
      in if ds \<noteq> [] \<and> list_all is_digit ds \<and> - (2 ^ 63) \<le> v \<and> v < 2 ^ 63 then Some v else None)"

definition retention_days :: "string \<Rightarrow> int" where
  "retention_days val =
     (let retentionDays = 30 in
      if val \<noteq> '''' then (case Atoi val of Some days \<Rightarrow> days | None \<Rightarrow> retentionDays) else retentionDays)"

text \<open>\<open>time.Duration(retentionDays) * 24 * time.Hour\<close> in 64-bit arithmetic.\<close>

definition retention_of :: "int \<Rightarrow> int" where
  "retention_of retentionDays = sint ((word_of_int retentionDays :: 64 word) * 24 * 3600000000000)"

section \<open>The cleanup worker\<close>

definition Hours :: "int \<Rightarrow> rat" where
  "Hours d =
     (let h = sgn d * (\<bar>d\<bar> div 3600000000000); nsec = d - h * 3600000000000
      in fl (fl (of_int h) + fl (fl (of_int nsec) / 3600000000000)))"

text \<open>
  The two statements, for the cutoff that PostgreSQL computes from \<open>NOW()\<close> and the days: how long a day of
  an interval is, is left to it.
\<close>

definition delete_messages :: "time \<Rightarrow> db_state \<Rightarrow> go_error + db_state" where
  "delete_messages cutoff db =
     Inr (db\<lparr>t_messages := filter (\<lambda>m. \<not> msg_CreatedAt m < cutoff) (t_messages db)\<rparr>)"

text \<open>The statement fails as a whole if a message or a membership still refers to a room it would delete.\<close>

definition delete_rooms :: "time \<Rightarrow> db_state \<Rightarrow> go_error + db_state" where
  "delete_rooms cutoff db =
     (let doomed = (\<lambda>r. room_CreatedAt r < cutoff \<and> room_DeletedAt r \<noteq> None)
      in if \<exists>r \<in> set (filter doomed (t_rooms db)).
              room_ID r \<in> RoomID ` set (t_messages db) \<or> room_ID r \<in> fst ` set (t_room_members db)
         then Inl fk_violation
         else Inr (db\<lparr>t_rooms := filter (\<lambda>r. \<not> doomed r) (t_rooms db)\<rparr>))"

definition runCleanup ::
  "(time \<Rightarrow> rat \<Rightarrow> time) \<Rightarrow> sql \<Rightarrow> sql \<Rightarrow> time \<Rightarrow> time \<Rightarrow> int \<Rightarrow> db_state \<Rightarrow> go_error option \<times> db_state" where
  "runCleanup ago q1 q2 now1 now2 retention db =
     (let days = fl (Hours retention / 24) in
      case exec_sql q1 ''failed to execute delete old messages query'' (delete_messages (ago now1 days)) db of
        (Some e, db) \<Rightarrow> (Some e, db)
      | (None, db) \<Rightarrow>
          exec_sql q2 ''failed to execute delete old rooms query'' (delete_rooms (ago now2 days)) db)"

text \<open>
  The worker of \<open>StartCleanupWorker\<close>: an endless loop of one cleanup a day whose errors are
  logged. A finite run of it is a list of cleanups, each with its clock readings and outcomes.
\<close>

fun cleanup_worker ::
  "(time \<Rightarrow> rat \<Rightarrow> time) \<Rightarrow> int \<Rightarrow> (sql \<times> sql \<times> time \<times> time) list \<Rightarrow> db_state \<Rightarrow> db_state" where
  "cleanup_worker ago retention [] db = db"
| "cleanup_worker ago retention ((q1, q2, n1, n2) # runs) db =
     cleanup_worker ago retention runs (snd (runCleanup ago q1 q2 n1 n2 retention db))"

section \<open>Lemmas\<close>

definition day_ns :: int where "day_ns = 86400000000000"

text \<open>
  What PostgreSQL documents of the interval arithmetic, on whole days and in general, in a session whose
  time zone has no daylight saving time: there a day of an interval is always 24 hours. The deletions
  themselves take the cutoff as \<open>ago\<close> computes it, whatever it is.
\<close>

definition interval_law :: "(time \<Rightarrow> rat \<Rightarrow> time) \<Rightarrow> bool" where
  "interval_law ago \<longleftrightarrow>
     (\<forall>t n. ago t (of_int n) = time_add t (- n * day_ns)) \<and> (\<forall>t x y. x \<le> y \<longrightarrow> ago t y \<le> ago t x)"

definition exact_ago :: "time \<Rightarrow> rat \<Rightarrow> time" where
  "exact_ago t x = time_add t (- \<lfloor>x * of_int day_ns\<rfloor>)"

lemma exact_ago_law: "interval_law exact_ago"
  unfolding interval_law_def exact_ago_def
proof (intro conjI allI impI)
  fix t n
  have "\<lfloor>(of_int n :: rat) * of_int day_ns\<rfloor> = n * day_ns"
    by (metis floor_of_int of_int_mult)
  then show "time_add t (- \<lfloor>of_int n * of_int day_ns :: rat\<rfloor>) = time_add t (- n * day_ns)" by simp
next
  fix t and x y :: rat
  assume "x \<le> y"
  then have "\<lfloor>x * of_int day_ns\<rfloor> \<le> \<lfloor>y * of_int day_ns\<rfloor>"
    by (intro floor_mono mult_right_mono) (simp_all add: day_ns_def)
  then show "time_add t (- \<lfloor>y * of_int day_ns\<rfloor>) \<le> time_add t (- \<lfloor>x * of_int day_ns\<rfloor>)"
    by (simp add: time_simps)
qed

lemma delete_messages_inv: "db_inv db \<Longrightarrow> delete_messages cutoff db = Inr db' \<Longrightarrow> db_inv db'"
  by (auto simp: delete_messages_def db_inv_def distinct_map_filter)

lemma delete_rooms_inv:
  assumes "db_inv db" and "delete_rooms cutoff db = Inr db'"
  shows "db_inv db'"
proof -
  let ?keep = "\<lambda>r. \<not> (room_CreatedAt r < cutoff \<and> room_DeletedAt r \<noteq> None)"
  have db': "db' = db\<lparr>t_rooms := filter ?keep (t_rooms db)\<rparr>"
    and safe: "\<forall>r \<in> set (t_rooms db). \<not> ?keep r \<longrightarrow>
      room_ID r \<notin> RoomID ` set (t_messages db) \<and> room_ID r \<notin> fst ` set (t_room_members db)"
    using assms(2) by (auto simp: delete_rooms_def Let_def split: if_splits)
  have kept: "i \<in> room_ID ` set (filter ?keep (t_rooms db))"
    if used: "i \<in> RoomID ` set (t_messages db) \<or> i \<in> fst ` set (t_room_members db)"
      and room: "i \<in> room_ID ` set (t_rooms db)" for i
  proof -
    obtain r where "r \<in> set (t_rooms db)" "i = room_ID r" using room by blast
    with used safe show ?thesis by (intro image_eqI [of _ _ r]) auto
  qed
  have "RoomID m \<in> room_ID ` set (filter ?keep (t_rooms db))" if "m \<in> set (t_messages db)" for m
    using assms(1) that unfolding db_inv_def by (intro kept) auto
  moreover have "r \<in> room_ID ` set (filter ?keep (t_rooms db))" if "(r, u) \<in> set (t_room_members db)" for r u
    using assms(1) that unfolding db_inv_def by (intro kept) force+
  ultimately show ?thesis
    using assms(1) unfolding db' db_inv_def
    by (auto simp: distinct_map_filter simp del: set_filter)
qed

lemma runCleanup_inv:
  assumes "db_inv db"
  shows "db_inv (snd (runCleanup ago q1 q2 now1 now2 retention db))"
proof -
  let ?what = "''failed to execute delete old messages query''"
  let ?cut = "ago now1 (fl (Hours retention / 24))"
  have "db_inv (snd (exec_sql q1 ?what (delete_messages ?cut) db))"
    using assms by (rule exec_sql_inv) (rule delete_messages_inv)
  then show ?thesis
    by (auto simp: runCleanup_def Let_def split: prod.splits option.splits intro!: exec_sql_inv dest: delete_rooms_inv)
qed

lemma retention_of_exact:
  assumes "\<bar>n\<bar> \<le> 106751"
  shows "retention_of n = n * day_ns"
proof -
  let ?w = "word_of_int (n * day_ns) :: 64 word"
  have range: "- (2 ^ 63) \<le> n * day_ns" "n * day_ns < 2 ^ 63"
    using assms by (auto simp: day_ns_def abs_if split: if_splits)
  have "retention_of n = sint ?w"
    by (simp add: retention_of_def day_ns_def mult.commute)
  also have "\<dots> = signed_take_bit 63 (n * day_ns)"
    by (subst signed_of_int) simp
  also have "\<dots> = n * day_ns"
    using range by (rule signed_take_bit_int_eq_self)
  finally show ?thesis .
qed

lemma fl_int: "0 \<le> n \<Longrightarrow> n < 2 ^ 53 \<Longrightarrow> fl (of_int n) = of_int n"
  using fl_of_nat [of "nat n"] by (simp add: nat_less_iff)

lemma retention_days_exact:
  assumes "0 \<le> n" and "n \<le> 106751"
  shows "fl (Hours (retention_of n) / 24) = of_int n"
proof -
  have ret: "retention_of n = (24 * n) * 3600000000000"
    using assms by (simp add: retention_of_exact day_ns_def)
  have "sgn ((24 * n) * 3600000000000) * (\<bar>(24 * n) * 3600000000000\<bar> div 3600000000000) = 24 * n"
    using assms by (cases "n = 0") (simp_all add: abs_mult sgn_mult)
  then have "Hours (retention_of n) = fl (fl (of_int (24 * n)) + fl (fl (of_int 0) / 3600000000000))"
    unfolding ret Hours_def Let_def by (simp del: of_int_mult)
  also have "\<dots> = of_int (24 * n)"
    using fl_int [of 0] fl_int [of "24 * n"] assms by simp
  finally have "Hours (retention_of n) / 24 = of_int n" by simp
  then show ?thesis using fl_int [of n] assms by simp
qed

lemma negative_retention_days:
  assumes "retention \<le> 0"
  shows "fl (Hours retention / 24) \<le> 0"
proof -
  have fl0: "fl x \<le> 0" if "x \<le> 0" for x
    using that round_even_le [of "x / ulp \<bar>x\<bar>" 0]
    by (auto simp: fl_def divide_nonpos_pos intro!: mult_nonpos_nonneg less_imp_le [OF ulp_pos])
  let ?h = "sgn retention * (\<bar>retention\<bar> div 3600000000000)"
  have h: "?h \<le> 0" using assms by (simp add: mult_nonpos_nonneg pos_imp_zdiv_nonneg_iff sgn_if)
  have "retention - ?h * 3600000000000 \<le> 0"
    using assms by (cases "retention = 0") (auto simp: sgn_if)
  then have "fl (fl (of_int (retention - ?h * 3600000000000)) / 3600000000000) \<le> 0"
    by (intro fl0 divide_nonpos_pos) (simp_all only: of_int_le_0_iff zero_less_numeral)
  moreover have "fl (of_int ?h) \<le> 0" using h by (intro fl0) (simp only: of_int_le_0_iff)
  ultimately have "Hours retention \<le> 0"
    unfolding Hours_def Let_def by (rule fl0 [OF add_nonpos_nonpos, rotated])
  then show ?thesis by (intro fl0) simp
qed

lemma cleanup_worker_inv: "db_inv db \<Longrightarrow> db_inv (cleanup_worker ago retention runs db)"
  by (induction ago retention runs db rule: cleanup_worker.induct) (simp_all add: runCleanup_inv)

lemma runCleanup_messages:
  "t_messages (snd (runCleanup ago Runs q2 now1 now2 retention db)) =
   filter (\<lambda>m. \<not> msg_CreatedAt m < ago now1 (fl (Hours retention / 24))) (t_messages db)"
  by (cases q2) (auto simp: runCleanup_def exec_sql_def delete_messages_def delete_rooms_def Let_def)

section \<open>Properties\<close>

text \<open>
  C29. For a retention of 0 to 106751 days a cleanup whose statements run deletes exactly the
  messages created more than that many days ago, and then exactly the rooms that are soft-deleted
  and created more than that many days ago; it fails, leaving all rooms, exactly when such a room
  still has a message or a member. Users and memberships are never touched.
\<close>

theorem cleanup_exact:
  assumes "interval_law ago" and "0 \<le> n" and "n \<le> 106751"
  shows "let res = runCleanup ago Runs Runs now1 now2 (retention_of n) db;
             kept = filter (\<lambda>m. time_add now1 (- n * day_ns) \<le> msg_CreatedAt m) (t_messages db);
             doomed = (\<lambda>r. room_CreatedAt r < time_add now2 (- n * day_ns) \<and> room_DeletedAt r \<noteq> None);
             blocked = (\<exists>r \<in> set (t_rooms db). doomed r \<and>
               (room_ID r \<in> RoomID ` set kept \<or> room_ID r \<in> fst ` set (t_room_members db)))
         in t_messages (snd res) = kept \<and>
            t_rooms (snd res) = (if blocked then t_rooms db else filter (\<lambda>r. \<not> doomed r) (t_rooms db)) \<and>
            (fst res \<noteq> None \<longleftrightarrow> blocked) \<and>
            t_users (snd res) = t_users db \<and> t_room_members (snd res) = t_room_members db"
proof -
  have cut: "ago t (fl (Hours (retention_of n) / 24)) = time_add t (- n * day_ns)" for t
    using assms by (simp add: retention_days_exact interval_law_def)
  have not_less: "\<not> msg_CreatedAt m < t \<longleftrightarrow> t \<le> msg_CreatedAt m" for m t by auto
  show ?thesis
    unfolding runCleanup_def Let_def cut exec_sql_Runs delete_messages_def delete_rooms_def not_less
    by auto
qed

theorem cleanup_exact_witness:
  "t_messages (snd (runCleanup exact_ago Runs Runs (Time (40 * day_ns)) (Time (40 * day_ns)) (retention_of 30)
     (empty_db\<lparr>t_messages := [domain_NewMessage ''m1'' (Time 0) ''u1'' ''r1'' '''' ''old'',
       domain_NewMessage ''m2'' (Time (20 * day_ns)) ''u1'' ''r1'' '''' ''new'']\<rparr>))) =
   [domain_NewMessage ''m2'' (Time (20 * day_ns)) ''u1'' ''r1'' '''' ''new'']"
  using cleanup_exact [OF exact_ago_law, of 30 "Time (40 * day_ns)" "Time (40 * day_ns)"
      "empty_db\<lparr>t_messages := [domain_NewMessage ''m1'' (Time 0) ''u1'' ''r1'' '''' ''old'',
         domain_NewMessage ''m2'' (Time (20 * day_ns)) ''u1'' ''r1'' '''' ''new'']\<rparr>"]
  by (simp add: Let_def domain_NewMessage_def time_simps day_ns_def)

text \<open>
  C30. The retention is multiplied out in 64-bit arithmetic without a check: with
  \<open>RETENTION_DAYS=106752\<close> it wraps to a negative duration, the cutoff is not before the present, and
  the first cleanup deletes every message.
\<close>

theorem retention_overflow:
  assumes "interval_law ago" and "\<forall>m \<in> set (t_messages db). msg_CreatedAt m < now1"
  shows "retention_of (retention_days ''106752'') < 0 \<and>
    t_messages (snd (runCleanup ago Runs q2 now1 now2 (retention_of (retention_days ''106752'')) db)) = []"
proof -
  have days: "retention_days ''106752'' = 106752"
    by (simp add: retention_days_def Atoi_def is_digit_def)
  have neg: "retention_of 106752 < 0"
    by (simp add: retention_of_def)
  let ?d = "fl (Hours (retention_of 106752) / 24)"
  have "ago now1 (of_int 0) \<le> ago now1 ?d"
    using assms(1) negative_retention_days [of "retention_of 106752"] neg by (auto simp: interval_law_def)
  moreover have "ago now1 (of_int 0) = now1"
    using assms(1) by (simp only: interval_law_def) (simp add: time_add_def)
  ultimately have "msg_CreatedAt m < ago now1 ?d" if "m \<in> set (t_messages db)" for m
    using assms(2) that by force
  then show ?thesis unfolding days runCleanup_messages using neg by (auto simp: filter_empty_conv)
qed

theorem retention_overflow_witness:
  "t_messages (snd (runCleanup exact_ago Runs Runs (Time 5) (Time 6) (retention_of (retention_days ''106752''))
     (empty_db\<lparr>t_messages := [domain_NewMessage ''m1'' (Time 4) ''u1'' ''r1'' '''' ''just sent'']\<rparr>))) = []"
  using retention_overflow [OF exact_ago_law,
      of "empty_db\<lparr>t_messages := [domain_NewMessage ''m1'' (Time 4) ''u1'' ''r1'' '''' ''just sent'']\<rparr>"
         "Time 5" Runs "Time 6"]
  by (simp add: domain_NewMessage_def time_simps)

end
