(* ===== verification/Membership.thy ===== *)
theory Membership
  imports Repository
begin

text \<open>
  What the two stores of internal/messaging share: the block that finds a room in the repository or
  creates it, and the contract of room membership as the locale \<open>room_membership\<close>, which
  \<open>InMemoryRoomStore\<close> and \<open>InMemoryMessageRouter\<close> both interpret.

  The contract is a set of (room, user) pairs. Its client lemmas say what membership is after any
  history of operations.
\<close>

section \<open>Find or create a room\<close>

definition find_or_create_room ::
  "'s room_repo \<Rightarrow> string \<Rightarrow> time \<Rightarrow> string \<Rightarrow> 's \<Rightarrow> (go_error + room) \<times> 's" where
  "find_or_create_room R uuid now roomName s =
     (case FindByRoomName R roomName s of
        Inl e \<Rightarrow> (Inl (Wrap ''failed to find room'' e), s)
      | Inr None \<Rightarrow>
          (let rm = NewRoom uuid now roomName in
           case CreateRoom R rm s of
             (Some e, s) \<Rightarrow> (Inl (Wrap ''failed to create room'' e), s)
           | (None, s) \<Rightarrow> (Inr rm, s))
      | Inr (Some existingRoom) \<Rightarrow> (Inr existingRoom, s))"

definition no_such_room :: "string \<Rightarrow> go_error" where
  "no_such_room roomName = Err (''the room:'' @ roomName @ '' does not exist'')"

text \<open>With a lawful repository the room found or created has the name and the ID of the active row.\<close>

context room_repository
begin

lemma find_or_create_spec:
  assumes "inv s" and "canonical (NewRoom uuid now n)"
    and "find_or_create_room R uuid now n s = (res, s')"
  shows "inv s'" and "active s k = Some rm \<Longrightarrow> active s' k = Some rm"
    and "res = Inr rm' \<Longrightarrow> Name rm' = n \<and> map_option room_ID (active s' n) = Some (room_ID rm')"
    and "active s n = Some rm \<Longrightarrow> s' = s"
proof -
  have "inv s' \<and> (active s k = Some rm \<longrightarrow> active s' k = Some rm) \<and>
      (res = Inr rm' \<longrightarrow> Name rm' = n \<and> map_option room_ID (active s' n) = Some (room_ID rm')) \<and>
      (active s n = Some rm \<longrightarrow> s' = s)"
  proof (cases "FindByRoomName R n s = Inr None")
    case True
    obtain r s1 where c: "CreateRoom R (NewRoom uuid now n) s = (r, s1)" by fastforce
    have none: "active s n = None" using find_active [OF assms(1) True] by simp
    have "inv s1 \<and> active s1 = (active s)(n \<mapsto> kept (NewRoom uuid now n))" if "r = None"
      using create_ok [OF assms(1,2)] c that by (auto simp: NewRoom_def)
    moreover have "s1 = s" if "r = Some e" for e
      using create_failed c that by blast
    moreover have "Name (NewRoom uuid now n) = n" by (simp add: NewRoom_def)
    ultimately show ?thesis
      using assms(1,3) c True none kept_ID by (cases r) (auto simp: find_or_create_room_def Let_def)
  next
    case False
    then have "s' = s \<and> (res = Inr rm' \<longrightarrow> FindByRoomName R n s = Inr (Some rm'))"
      using assms(3) by (auto simp: find_or_create_room_def split: sum.splits option.splits)
    moreover have "active s n = Some rm'" "Name rm' = n" if "FindByRoomName R n s = Inr (Some rm')"
      using find_active [OF assms(1) that] active_name by auto
    ultimately show ?thesis using assms(1) by auto
  qed
  then show "inv s'" and "active s k = Some rm \<Longrightarrow> active s' k = Some rm"
    and "res = Inr rm' \<Longrightarrow> Name rm' = n \<and> map_option room_ID (active s' n) = Some (room_ID rm')"
    and "active s n = Some rm \<Longrightarrow> s' = s" by auto
qed

end

section \<open>The contract of room membership\<close>

datatype room_op = Joins string string | Leaves string string | Disconnects string

fun effect :: "room_op \<Rightarrow> (string \<times> string) set \<Rightarrow> (string \<times> string) set" where
  "effect (Joins r u) P = insert (r, u) P"
| "effect (Leaves r u) P = P - {(r, u)}"
| "effect (Disconnects u) P = {p \<in> P. snd p \<noteq> u}"

text \<open>Whether user \<open>u\<close> is in room \<open>r\<close> after a history, by the last operation about the two.\<close>

fun member_after :: "string \<Rightarrow> string \<Rightarrow> room_op list \<Rightarrow> bool \<Rightarrow> bool" where
  "member_after r u [] b = b"
| "member_after r u (Joins r' u' # ops) b = member_after r u ops (r = r' \<and> u = u' \<or> b)"
| "member_after r u (Leaves r' u' # ops) b = member_after r u ops (b \<and> \<not> (r = r' \<and> u = u'))"
| "member_after r u (Disconnects u' # ops) b = member_after r u ops (b \<and> u \<noteq> u')"

lemma fold_effect_member: "(r, u) \<in> fold effect ops P \<longleftrightarrow> member_after r u ops ((r, u) \<in> P)"
proof (induction ops arbitrary: P)
  case (Cons op ops)
  then show ?case by (cases op) simp_all
qed simp

text \<open>Running a list of operations, keeping those that succeeded.\<close>

fun run_ops :: "('e \<Rightarrow> 'st \<Rightarrow> go_error option \<times> 'st) \<Rightarrow> 'e list \<Rightarrow> 'st \<Rightarrow> 'e list \<times> 'st" where
  "run_ops step [] st = ([], st)"
| "run_ops step (e # es) st =
     (case step e st of (res, st) \<Rightarrow>
        case run_ops step es st of (done_ops, st) \<Rightarrow>
          (if res = None then e # done_ops else done_ops, st))"

locale room_membership =
  fixes step :: "'e \<Rightarrow> 'st \<Rightarrow> go_error option \<times> 'st"
    and op_of :: "'e \<Rightarrow> room_op"
    and pairs :: "'st \<Rightarrow> (string \<times> string) set"
    and rooms_of :: "'st \<Rightarrow> string set"
    and wf :: "'st \<Rightarrow> bool"
    and legal :: "'e \<Rightarrow> bool"
  assumes wf_rooms: "wf st \<Longrightarrow> rooms_of st = fst ` pairs st"
    and step_wf: "wf st \<Longrightarrow> legal e \<Longrightarrow> step e st = (res, st') \<Longrightarrow> wf st'"
    and step_ok: "wf st \<Longrightarrow> legal e \<Longrightarrow> step e st = (None, st') \<Longrightarrow> pairs st' = effect (op_of e) (pairs st)"
    and step_err: "wf st \<Longrightarrow> legal e \<Longrightarrow> step e st = (Some er, st') \<Longrightarrow> pairs st' = pairs st"
begin

lemma run_pairs:
  "wf st \<Longrightarrow> list_all legal es \<Longrightarrow> run_ops step es st = (oks, st') \<Longrightarrow>
   wf st' \<and> pairs st' = fold effect (map op_of oks) (pairs st)"
proof (induction es arbitrary: st oks st')
  case (Cons e es)
  have e: "legal e" "list_all legal es" using Cons.prems(2) by auto
  obtain res st1 where s: "step e st = (res, st1)" by fastforce
  obtain oks' st2 where r: "run_ops step es st1 = (oks', st2)" by fastforce
  have w: "wf st1" using Cons.prems(1) e(1) s by (rule step_wf)
  from Cons.IH [OF w e(2) r] have IH: "wf st2" "pairs st2 = fold effect (map op_of oks') (pairs st1)" by auto
  from Cons.prems(3) s r have r: "st' = st2" "oks = (if res = None then e # oks' else oks')" by auto
  show ?case
  proof (cases res)
    case None
    then show ?thesis using IH r step_ok [OF Cons.prems(1) e(1)] s by simp
  next
    case (Some er)
    then show ?thesis using IH r step_err [OF Cons.prems(1) e(1)] s by simp
  qed
qed simp

lemma run_member:
  assumes "wf st" and "pairs st = {}" and "list_all legal es" and "run_ops step es st = (oks, st')"
  shows "(r, u) \<in> pairs st' \<longleftrightarrow> member_after r u (map op_of oks) False"
    and "r \<in> rooms_of st' \<longleftrightarrow> (\<exists>u. (r, u) \<in> pairs st')" and "wf st'"
proof -
  have run: "wf st'" "pairs st' = fold effect (map op_of oks) {}"
    using run_pairs [OF assms(1,3,4)] assms(2) by auto
  then show "wf st'" and "(r, u) \<in> pairs st' \<longleftrightarrow> member_after r u (map op_of oks) False"
    by (simp_all add: fold_effect_member)
  show "r \<in> rooms_of st' \<longleftrightarrow> (\<exists>u. (r, u) \<in> pairs st')"
    using wf_rooms [OF run(1)] by force
qed

end

end
