(* ===== verification/RepoHistory.thy ===== *)
theory RepoHistory
  imports Membership
begin

text \<open>
  Histories of repository calls, over PostgreSQL with any outcome of each statement: the table of room
  members against the contract of room membership, and the life of a message against a reference that
  knows one message only.
\<close>

section \<open>Room members\<close>

datatype member_op = MemberAdd sql string string | MemberRemove sql string string

fun member_step :: "uuid_conv \<Rightarrow> member_op \<Rightarrow> db_state \<Rightarrow> go_error option \<times> db_state" where
  "member_step uuid (MemberAdd q r u) db = MemberRepo_Add uuid q r u db"
| "member_step uuid (MemberRemove q r u) db = MemberRepo_Remove uuid q r u db"

fun member_op_of :: "member_op \<Rightarrow> room_op" where
  "member_op_of (MemberAdd q r u) = Joins r u"
| "member_op_of (MemberRemove q r u) = Leaves r u"

fun canonical_member_op :: "uuid_conv \<Rightarrow> member_op \<Rightarrow> bool" where
  "canonical_member_op uuid (MemberAdd q r u) \<longleftrightarrow> uuid r = Some r \<and> uuid u = Some u"
| "canonical_member_op uuid (MemberRemove q r u) \<longleftrightarrow> uuid r = Some r \<and> uuid u = Some u"

lemma member_step_inv: "db_inv db \<Longrightarrow> db_inv (snd (member_step uuid op db))"
  by (cases op) (simp_all add: MemberRepo_Add_inv MemberRepo_Remove_inv)

interpretation members: room_membership "member_step uuid" member_op_of "\<lambda>db. set (t_room_members db)"
  "\<lambda>db. fst ` set (t_room_members db)" db_inv "canonical_member_op uuid" for uuid
proof unfold_locales
  fix db db' :: db_state and op res
  assume "db_inv db" and "member_step uuid op db = (res, db')"
  then show "db_inv db'" using member_step_inv [of db uuid op] by simp
next
  fix db db' :: db_state and op
  assume "canonical_member_op uuid op" and "member_step uuid op db = (None, db')"
  then show "set (t_room_members db') = effect (member_op_of op) (set (t_room_members db))"
    by (cases op) (auto simp: MemberRepo_Add_def MemberRepo_Remove_def elim!: exec_sql_cases split: if_splits)
next
  fix db db' :: db_state and op er
  assume "member_step uuid op db = (Some er, db')"
  then show "set (t_room_members db') = set (t_room_members db)"
    by (cases op) (auto simp: MemberRepo_Add_def MemberRepo_Remove_def elim!: exec_sql_cases)
qed simp

lemma distinct_column:
  "distinct ps \<Longrightarrow> distinct (map snd (filter (\<lambda>p. fst p = r) ps))"
  "distinct ps \<Longrightarrow> distinct (map fst (filter (\<lambda>p. snd p = u) ps))"
  by (auto simp: distinct_map inj_on_def)

section \<open>Messages\<close>

datatype message_op = MessageCreate sql message | MessageDelivered sql string | MessageDelete sql time string

fun message_step :: "uuid_conv \<Rightarrow> ts_conv \<Rightarrow> message_op \<Rightarrow> db_state \<Rightarrow> go_error option \<times> db_state" where
  "message_step uuid ts (MessageCreate q m) db = MessageRepo_Create uuid ts q m db"
| "message_step uuid ts (MessageDelivered q i) db = MessageRepo_MarkDelivered uuid q i db"
| "message_step uuid ts (MessageDelete q t i) db = MessageRepo_SoftDelete uuid t q i db"

fun canonical_message_op :: "uuid_conv \<Rightarrow> message_op \<Rightarrow> bool" where
  "canonical_message_op uuid (MessageCreate q m) \<longleftrightarrow>
     uuid (msg_ID m) = Some (msg_ID m) \<and> uuid (SenderID m) \<in> {None, Some (SenderID m)} \<and> uuid (RoomID m) \<in> {None, Some (RoomID m)}"
| "canonical_message_op uuid (MessageDelivered q i) \<longleftrightarrow> uuid i = Some i"
| "canonical_message_op uuid (MessageDelete q t i) \<longleftrightarrow> uuid i = Some i"

text \<open>
  The reference: what becomes of the message with ID \<open>i\<close> in the operations that succeeded. System messages
  are reported as stored and are not; delivery is for ever, and the first deletion counts.
\<close>

fun fate :: "ts_conv \<Rightarrow> string \<Rightarrow> message_op list \<Rightarrow> message option \<Rightarrow> message option" where
  "fate ts i [] f = f"
| "fate ts i (MessageCreate q m # ops) f =
     fate ts i ops (if msg_ID m = i \<and> SenderID m \<noteq> SystemSenderID then Some (m\<lparr>From := '''', msg_CreatedAt := ts (msg_CreatedAt m), msg_DeletedAt := None\<rparr>) else f)"
| "fate ts i (MessageDelivered q j # ops) f =
     fate ts i ops (if i = j then map_option (\<lambda>m. m\<lparr>Delivered := True\<rparr>) f else f)"
| "fate ts i (MessageDelete q t j # ops) f =
     fate ts i ops (if i = j then map_option (\<lambda>m. if msg_DeletedAt m = None then m\<lparr>msg_DeletedAt := Some t\<rparr> else m) f else f)"

definition message_row :: "db_state \<Rightarrow> string \<Rightarrow> message option" where
  "message_row db i = find (\<lambda>m. msg_ID m = i) (t_messages db)"

lemma find_map_row:
  assumes "\<And>m. msg_ID (f m) = msg_ID m"
  shows "find (\<lambda>m. msg_ID m = i) (map f ms) = map_option f (find (\<lambda>m. msg_ID m = i) ms)"
  using assms by (induction ms) auto

lemma row_ID: "message_row db i = Some m \<Longrightarrow> msg_ID m = i \<and> m \<in> set (t_messages db)"
  unfolding message_row_def by (rule find_SomeD)

lemma row_iff: "db_inv db \<Longrightarrow> m \<in> set (t_messages db) \<Longrightarrow> message_row db (msg_ID m) = Some m"
  unfolding message_row_def db_inv_def
  by (cases "find (\<lambda>x. msg_ID x = msg_ID m) (t_messages db)")
    (auto simp: find_None_iff distinct_map inj_on_def dest!: find_SomeD)

lemma map_option_row:
  "find (\<lambda>m. msg_ID m = i) (map (\<lambda>m. if msg_ID m = j then f m else m) ms) =
   (if i = j then map_option f (find (\<lambda>m. msg_ID m = i) ms) else find (\<lambda>m. msg_ID m = i) ms)"
  if "\<And>m. msg_ID (f m) = msg_ID m" for f :: "message \<Rightarrow> message"
  using that by (induction ms) auto

lemma message_step_row:
  assumes "canonical_message_op uuid op" and "message_step uuid ts op db = (None, db')"
  shows "message_row db' i = fate ts i [op] (message_row db i)"
proof (cases op)
  case (MessageCreate q m)
  show ?thesis
  proof (cases "SenderID m = SystemSenderID")
    case False
    let ?row = "m\<lparr>From := '''', msg_CreatedAt := ts (msg_CreatedAt m), msg_DeletedAt := None\<rparr>"
    have new: "msg_ID m \<notin> msg_ID ` set (t_messages db)" and row: "t_messages db' = t_messages db @ [?row]"
      using assms MessageCreate False
      by (auto simp: MessageRepo_Create_def elim!: exec_sql_cases split: if_splits option.splits)
    have "find (\<lambda>x. msg_ID x = msg_ID m) (t_messages db) = None"
      by (rule find_None_set) (metis new image_eqI)
    then show ?thesis using MessageCreate False
      by (cases "find (\<lambda>x. msg_ID x = i) (t_messages db)") (auto simp: message_row_def row find_snoc)
  qed (use assms MessageCreate in \<open>auto simp: MessageRepo_Create_def split: if_splits\<close>)
next
  case (MessageDelivered q j)
  with assms have "t_messages db' = map (\<lambda>m. if msg_ID m = j then m\<lparr>Delivered := True\<rparr> else m) (t_messages db)"
    by (auto simp: MessageRepo_MarkDelivered_def elim!: exec_sql_cases)
  with MessageDelivered show ?thesis by (simp add: message_row_def map_option_row)
next
  case (MessageDelete q t j)
  let ?f = "\<lambda>m. if msg_DeletedAt m = None then m\<lparr>msg_DeletedAt := Some t\<rparr> else m"
  have "t_messages db' = map (\<lambda>m. if msg_ID m = j \<and> msg_DeletedAt m = None then m\<lparr>msg_DeletedAt := Some t\<rparr> else m) (t_messages db)"
    using assms MessageDelete by (auto simp: MessageRepo_SoftDelete_def elim!: exec_sql_cases)
  also have "\<dots> = map (\<lambda>m. if msg_ID m = j then ?f m else m) (t_messages db)" by auto
  finally show ?thesis using map_option_row [of ?f i j "t_messages db"] MessageDelete by (simp add: message_row_def)
qed

lemma message_step_err: "message_step uuid ts op db = (Some e, db') \<Longrightarrow> db' = db"
  by (cases op) (auto simp: MessageRepo_Create_def MessageRepo_MarkDelivered_def MessageRepo_SoftDelete_def
      elim!: exec_sql_cases split: if_splits)

lemma message_step_inv: "db_inv db \<Longrightarrow> db_inv (snd (message_step uuid ts op db))"
  by (cases op) (simp_all add: MessageRepo_Create_inv MessageRepo_MarkDelivered_inv MessageRepo_SoftDelete_inv)

lemma fate_Cons: "fate ts i (op # ops) f = fate ts i ops (fate ts i [op] f)"
  by (cases op) simp_all

lemma message_run:
  assumes "run_ops (message_step uuid ts) ops db = (oks, db')" and "list_all (canonical_message_op uuid) ops" and "db_inv db"
  shows "db_inv db' \<and> message_row db' i = fate ts i oks (message_row db i)"
  using assms
proof (induction ops arbitrary: db oks)
  case (Cons op ops)
  obtain res db1 where step: "message_step uuid ts op db = (res, db1)" by fastforce
  obtain oks' where run: "run_ops (message_step uuid ts) ops db1 = (oks', db')"
    and oks: "oks = (if res = None then op # oks' else oks')"
    using Cons.prems(1) step by (cases "run_ops (message_step uuid ts) ops db1") (auto split: if_splits)
  have "db_inv db1" using message_step_inv [OF Cons.prems(3), of uuid ts op] step by simp
  with Cons.IH [OF run] Cons.prems(2) have IH: "db_inv db'" "message_row db' i = fate ts i oks' (message_row db1 i)" by auto
  show ?case
  proof (cases res)
    case None
    with IH message_step_row [of uuid op ts db db1 i] step Cons.prems(2) show ?thesis
      unfolding oks by (simp add: fate_Cons [of ts i op oks'])
  next
    case (Some e)
    with IH message_step_err [of uuid ts op db e db1] step show ?thesis unfolding oks by simp
  qed
qed simp

lemma listed_ids:
  assumes "\<And>m. msg_ID (g m) = msg_ID m" and "\<And>m. P (g m) = P m"
  shows "i \<in> msg_ID ` set (filter P (map g ms)) \<longleftrightarrow> (\<exists>m \<in> set ms. msg_ID m = i \<and> P m)"
  using assms by (induction ms) auto

text \<open>A database with one account and one room, and a message, for the witnesses.\<close>

definition lobby_db :: db_state where
  "lobby_db = \<lparr>t_users = [NewUser ''u1'' (Time 0) ''alice'' ''h''], t_rooms = [NewRoom ''r1'' (Time 0) ''lobby''],
     t_messages = [], t_room_members = []\<rparr>"

lemma lobby_db_inv: "db_inv lobby_db"
  by (simp add: lobby_db_def db_inv_def)

definition hi_message :: message where
  "hi_message = domain_NewMessage ''m1'' (Time 1) ''u1'' ''r1'' '''' ''hi''"

section \<open>Properties\<close>

text \<open>
  C34. The table of room members after any history of \<open>Add\<close> and \<open>Remove\<close>, some of which may fail:
  \<open>ListByRoom\<close> lists a user, and \<open>ListByUser\<close> the room, each once, exactly if the last successful call
  about the two was an \<open>Add\<close>, or there was none and the table had the pair before.
\<close>

theorem MemberRepo_history:
  assumes "run_ops (member_step uuid) ops db = (oks, db')" and "list_all (canonical_member_op uuid) ops"
    and "db_inv db" and "uuid r = Some r" and "uuid u = Some u"
  shows "\<exists>us rs. MemberRepo_ListByRoom uuid Runs r db' = Inr us \<and> MemberRepo_ListByUser uuid Runs u db' = Inr rs \<and>
    distinct us \<and> distinct rs \<and> (r \<in> set rs \<longleftrightarrow> u \<in> set us) \<and>
    (u \<in> set us \<longleftrightarrow> member_after r u (map member_op_of oks) ((r, u) \<in> set (t_room_members db)))"
proof -
  have run: "db_inv db'" "set (t_room_members db') = fold effect (map member_op_of oks) (set (t_room_members db))"
    using members.run_pairs [OF assms(3,2,1)] by auto
  let ?us = "map snd (filter (\<lambda>p. fst p = r) (t_room_members db'))"
  let ?rs = "map fst (filter (\<lambda>p. snd p = u) (t_room_members db'))"
  have lists: "MemberRepo_ListByRoom uuid Runs r db' = Inr ?us" "MemberRepo_ListByUser uuid Runs u db' = Inr ?rs"
    using assms(4,5) by (simp_all add: MemberRepo_ListByRoom_def MemberRepo_ListByUser_def query_rows_def)
  have "distinct (t_room_members db')" using run(1) by (simp add: db_inv_def)
  then have "distinct ?us" "distinct ?rs" by (fact distinct_column)+
  moreover have "u \<in> set ?us \<longleftrightarrow> (r, u) \<in> set (t_room_members db')" "r \<in> set ?rs \<longleftrightarrow> (r, u) \<in> set (t_room_members db')"
    by force+
  ultimately show ?thesis
    using lists run(2) fold_effect_member [of r u "map member_op_of oks" "set (t_room_members db)"] by blast
qed

theorem MemberRepo_history_witness:
  "\<exists>db' us. run_ops (member_step Some) [MemberAdd Runs ''r1'' ''u1'', MemberAdd Runs ''r1'' ''u2'', MemberAdd Runs ''r1'' ''u1''] lobby_db =
      ([MemberAdd Runs ''r1'' ''u1''], db') \<and> MemberRepo_ListByRoom Some Runs ''r1'' db' = Inr us \<and> ''u1'' \<in> set us"
proof -
  let ?ops = "[MemberAdd Runs ''r1'' ''u1'', MemberAdd Runs ''r1'' ''u2'', MemberAdd Runs ''r1'' ''u1'']"
  obtain db' where run: "run_ops (member_step Some) ?ops lobby_db = ([MemberAdd Runs ''r1'' ''u1''], db')"
    by (simp add: MemberRepo_Add_def exec_sql_Runs lobby_db_def NewUser_def NewRoom_def)
  have "list_all (canonical_member_op Some) ?ops" by simp
  from MemberRepo_history [OF run this lobby_db_inv, of "''r1''" "''u1''"] run show ?thesis by auto
qed

text \<open>
  C33. The life of a message over any history of \<open>Create\<close>, \<open>MarkDelivered\<close> and \<open>SoftDelete\<close>, some of which may
  fail: its row is the reference's; the history of a room shows it exactly while it is not deleted, and
  a member's undelivered messages have it exactly while it is neither delivered nor deleted, its room is
  private and the member is not its sender.
\<close>

theorem MessageRepo_history:
  assumes "run_ops (message_step uuid ts) ops db = (oks, db')" and "list_all (canonical_message_op uuid) ops"
    and "db_inv db" and "desc_sorter srt" and "uuid r = Some r" and "uuid u = Some u" and "length (t_messages db') \<le> lim"
  shows "\<exists>hist und. MessageRepo_ListByRoom srt uuid Runs r lim db' = Inr hist \<and>
    MessageRepo_ListUndelivered uuid Runs u db' = Inr und \<and>
    (i \<in> msg_ID ` set hist \<longleftrightarrow>
      (\<exists>m. fate ts i oks (message_row db i) = Some m \<and> RoomID m = r \<and> msg_DeletedAt m = None)) \<and>
    (i \<in> msg_ID ` set und \<longleftrightarrow>
      (\<exists>m. fate ts i oks (message_row db i) = Some m \<and> \<not> Delivered m \<and> msg_DeletedAt m = None \<and> SenderID m \<noteq> u \<and>
         (RoomID m, u) \<in> set (t_room_members db') \<and> (\<exists>rm \<in> set (t_rooms db'). room_ID rm = RoomID m \<and> IsPrivate rm)))"
proof -
  note run = message_run [OF assms(1-3)]
  have inv: "db_inv db'" using run by blast
  have row: "fate ts i oks (message_row db i) = Some m \<longleftrightarrow> m \<in> set (t_messages db') \<and> msg_ID m = i" for m
    using run [of i] row_ID row_iff [OF inv] by metis
  have join: "join_sender db' (t_messages db') = map (\<lambda>m. m\<lparr>From := sender_name db' (SenderID m)\<rparr>) (t_messages db')"
    using inv by (intro join_sender_eq) (auto simp: db_inv_def)
  have perm: "set (srt ms) = set ms \<and> length (srt ms) = length ms" for ms
    using assms(4) unfolding desc_sorter_def by (metis mset_eq_length mset_eq_setD)
  have len: "length (visible_messages db' r) \<le> lim"
    unfolding visible_messages_def length_map by (rule le_trans [OF length_filter_le assms(7)])
  let ?hist = "take lim (srt (visible_messages db' r))"
  let ?und = "filter (\<lambda>m. (RoomID m, u) \<in> set (t_room_members db') \<and> SenderID m \<noteq> u \<and>
      (\<exists>rm \<in> set (t_rooms db'). room_ID rm = RoomID m \<and> IsPrivate rm) \<and> \<not> Delivered m \<and> msg_DeletedAt m = None)
    (join_sender db' (t_messages db'))"
  have "MessageRepo_ListByRoom srt uuid Runs r lim db' = Inr ?hist" "MessageRepo_ListUndelivered uuid Runs u db' = Inr ?und"
    using assms(5,6) inv by (simp_all add: MessageRepo_ListByRoom_def MessageRepo_ListUndelivered_def query_rows_def visible_messages_eq)
  moreover have "i \<in> msg_ID ` set ?hist \<longleftrightarrow> (\<exists>m \<in> set (t_messages db'). msg_ID m = i \<and> RoomID m = r \<and> msg_DeletedAt m = None)"
  proof -
    have "set ?hist = set (visible_messages db' r)" using perm len by simp
    then show ?thesis by (auto simp: visible_messages_def image_iff)
  qed
  moreover have "i \<in> msg_ID ` set ?und \<longleftrightarrow> (\<exists>m \<in> set (t_messages db'). msg_ID m = i \<and> \<not> Delivered m \<and> msg_DeletedAt m = None \<and>
      SenderID m \<noteq> u \<and> (RoomID m, u) \<in> set (t_room_members db') \<and> (\<exists>rm \<in> set (t_rooms db'). room_ID rm = RoomID m \<and> IsPrivate rm))"
    unfolding join by (subst listed_ids) (auto simp: conj_ac)
  ultimately show ?thesis
    unfolding row by (intro exI [of _ ?hist] exI [of _ ?und] conjI) (assumption | blast)+
qed

theorem MessageRepo_history_witness:
  "\<exists>oks db' ms. run_ops (message_step Some id) [MessageCreate Runs hi_message, MessageDelivered Runs ''m1''] lobby_db = (oks, db') \<and>
     MessageRepo_ListByRoom sort_desc Some Runs ''r1'' 20 db' = Inr ms \<and> ''m1'' \<in> msg_ID ` set ms"
proof -
  let ?ops = "[MessageCreate Runs hi_message, MessageDelivered Runs ''m1'']"
  obtain db' where run: "run_ops (message_step Some id) ?ops lobby_db = (?ops, db')" and len: "length (t_messages db') \<le> 20"
    by (simp add: MessageRepo_Create_def MessageRepo_MarkDelivered_def exec_sql_Runs lobby_db_def NewUser_def NewRoom_def
        hi_message_def domain_NewMessage_def SystemSenderID_def)
  have legal: "list_all (canonical_message_op Some) ?ops" by simp
  have fate: "fate id ''m1'' ?ops (message_row lobby_db ''m1'') = Some (hi_message\<lparr>From := '''', msg_CreatedAt := Time 1, msg_DeletedAt := None, Delivered := True\<rparr>)"
    by (simp add: hi_message_def domain_NewMessage_def SystemSenderID_def)
  obtain hist where hist: "MessageRepo_ListByRoom sort_desc Some Runs ''r1'' 20 db' = Inr hist"
    "''m1'' \<in> msg_ID ` set hist \<longleftrightarrow>
      (\<exists>m. fate id ''m1'' ?ops (message_row lobby_db ''m1'') = Some m \<and> RoomID m = ''r1'' \<and> msg_DeletedAt m = None)"
    using MessageRepo_history [where r = "''r1''" and u = "''u1''" and i = "''m1''" and uuid = Some and ts = id,
        OF run legal lobby_db_inv sort_desc_sorter refl refl len] by blast
  have "''m1'' \<in> msg_ID ` set hist"
    unfolding hist(2) fate by (simp add: hi_message_def domain_NewMessage_def)
  with run hist(1) show ?thesis by blast
qed

end
