(* ===== verification/RoomStore.thy ===== *)
theory RoomStore
  imports Membership
begin

text \<open>
  internal/messaging/room_store.go: the messaging service's room membership, by user name, with the
  rooms' IDs from the repository. A state is the store's map of rooms and the repository's state;
  every method holds the mutex and is one step.
\<close>

section \<open>The store\<close>

record room_entry =
  entry_id :: string
  entry_members :: "string fset"

definition newRoomEntry :: "string \<Rightarrow> room_entry" where
  "newRoomEntry i = \<lparr>entry_id = i, entry_members = {||}\<rparr>"

record room_store =
  rs_rooms :: "(string, room_entry) fmap"

definition NewRoomStore :: room_store where
  "NewRoomStore = \<lparr>rs_rooms = fmempty\<rparr>"

definition rs_JoinRoom ::
  "'s room_repo \<Rightarrow> string \<Rightarrow> time \<Rightarrow> string \<Rightarrow> string \<Rightarrow> room_store \<times> 's \<Rightarrow> go_error option \<times> room_store \<times> 's" where
  "rs_JoinRoom R uuid now roomName username = (\<lambda>(st, s).
     let join = (\<lambda>session.
           st\<lparr>rs_rooms := fmupd roomName
                 (session\<lparr>entry_members := finsert username (entry_members session)\<rparr>) (rs_rooms st)\<rparr>)
     in case fmlookup (rs_rooms st) roomName of
          Some roomSession \<Rightarrow> (None, join roomSession, s)
        | None \<Rightarrow>
            (case find_or_create_room R uuid now roomName s of
               (Inl e, s) \<Rightarrow> (Some e, st, s)
             | (Inr rm, s) \<Rightarrow> (None, join (newRoomEntry (room_ID rm)), s)))"

definition rs_LeaveRoom :: "string \<Rightarrow> string \<Rightarrow> room_store \<Rightarrow> go_error option \<times> room_store" where
  "rs_LeaveRoom roomName username st =
     (case fmlookup (rs_rooms st) roomName of
        None \<Rightarrow> (Some (no_such_room roomName), st)
      | Some rm \<Rightarrow>
          (let rm = rm\<lparr>entry_members := entry_members rm |-| {|username|}\<rparr> in
           if entry_members rm = {||} then (None, st\<lparr>rs_rooms := fmdrop roomName (rs_rooms st)\<rparr>)
           else (None, st\<lparr>rs_rooms := fmupd roomName rm (rs_rooms st)\<rparr>)))"

definition rs_ListRooms :: "(string fset \<Rightarrow> string list) \<Rightarrow> room_store \<Rightarrow> string list" where
  "rs_ListRooms ord st = ord (fmdom (rs_rooms st))"

definition rs_ListRoomMembers ::
  "(string fset \<Rightarrow> string list) \<Rightarrow> string \<Rightarrow> room_store \<Rightarrow> go_error option \<times> string list" where
  "rs_ListRoomMembers ord roomName st =
     (case fmlookup (rs_rooms st) roomName of
        None \<Rightarrow> (Some (no_such_room roomName), [])
      | Some rm \<Rightarrow> (None, ord (entry_members rm)))"

definition rs_GetRoomID :: "string \<Rightarrow> room_store \<Rightarrow> string" where
  "rs_GetRoomID roomName st =
     (case fmlookup (rs_rooms st) roomName of None \<Rightarrow> '''' | Some session \<Rightarrow> entry_id session)"

section \<open>Histories\<close>

text \<open>
  An operation with what it meets: a join carries the repository as it behaves during the call (a
  statement may fail now and run later), the fresh ID and the clock.
\<close>

datatype 's rs_op = RsJoin "'s room_repo" string time string string | RsLeave string string

fun rs_step :: "'s rs_op \<Rightarrow> room_store \<times> 's \<Rightarrow> go_error option \<times> room_store \<times> 's" where
  "rs_step (RsJoin R uuid now r u) (st, s) = rs_JoinRoom R uuid now r u (st, s)"
| "rs_step (RsLeave r u) (st, s) = (case rs_LeaveRoom r u st of (e, st') \<Rightarrow> (e, st', s))"

fun rs_op_of :: "'s rs_op \<Rightarrow> room_op" where
  "rs_op_of (RsJoin R uuid now r u) = Joins r u"
| "rs_op_of (RsLeave r u) = Leaves r u"

definition rs_pairs :: "room_store \<Rightarrow> (string \<times> string) set" where
  "rs_pairs st = {(r, u). \<exists>e. fmlookup (rs_rooms st) r = Some e \<and> u |\<in>| entry_members e}"

definition rs_wf :: "room_store \<Rightarrow> bool" where
  "rs_wf st \<longleftrightarrow> (\<forall>r e. fmlookup (rs_rooms st) r = Some e \<longrightarrow> entry_members e \<noteq> {||})"

lemma rs_join_cases:
  assumes "rs_JoinRoom R uuid now r u (st, s) = (res, st', s')"
  obtains (known) e where "fmlookup (rs_rooms st) r = Some e" "res = None" "s' = s"
      "rs_rooms st' = fmupd r (e\<lparr>entry_members := finsert u (entry_members e)\<rparr>) (rs_rooms st)"
    | (new) rm where "fmlookup (rs_rooms st) r = None" "find_or_create_room R uuid now r s = (Inr rm, s')"
      "res = None" "rs_rooms st' = fmupd r \<lparr>entry_id = room_ID rm, entry_members = {|u|}\<rparr> (rs_rooms st)"
    | (failed) e where "fmlookup (rs_rooms st) r = None" "find_or_create_room R uuid now r s = (Inl e, s')"
      "res = Some e" "st' = st"
  using assms
  by (auto simp: rs_JoinRoom_def newRoomEntry_def Let_def split: option.splits prod.splits sum.splits)

lemma rs_leave_cases:
  assumes "rs_LeaveRoom r u st = (res, st')"
  obtains (absent) "fmlookup (rs_rooms st) r = None" "res = Some (no_such_room r)" "st' = st"
    | (last) e where "fmlookup (rs_rooms st) r = Some e" "entry_members e |-| {|u|} = {||}" "res = None"
      "rs_rooms st' = fmdrop r (rs_rooms st)"
    | (left) e where "fmlookup (rs_rooms st) r = Some e" "entry_members e |-| {|u|} \<noteq> {||}" "res = None"
      "rs_rooms st' = fmupd r (e\<lparr>entry_members := entry_members e |-| {|u|}\<rparr>) (rs_rooms st)"
  using assms by (auto simp: rs_LeaveRoom_def Let_def split: option.splits if_splits)

lemma rs_join_pairs:
  assumes "rs_JoinRoom R uuid now r u (st, s) = (res, st', s')" and "rs_wf st"
  shows "rs_wf st'" and "rs_pairs st' = (if res = None then insert (r, u) (rs_pairs st) else rs_pairs st)"
  using assms(1)
  by (cases rule: rs_join_cases; insert assms(2); auto simp: rs_wf_def rs_pairs_def split: if_splits)+

lemma rs_leave_pairs:
  assumes "rs_LeaveRoom r u st = (res, st')" and "rs_wf st"
  shows "rs_wf st'" and "rs_pairs st' = (if res = None then rs_pairs st - {(r, u)} else rs_pairs st)"
  using assms(1)
  by (cases rule: rs_leave_cases; insert assms(2); auto simp: rs_wf_def rs_pairs_def split: if_splits)+

interpretation rs: room_membership rs_step rs_op_of "\<lambda>st. rs_pairs (fst st)" "\<lambda>st. fset (fmdom (rs_rooms (fst st)))" "\<lambda>st. rs_wf (fst st)" "\<lambda>op. True"
proof unfold_locales
  fix st :: "room_store \<times> 's"
  assume "rs_wf (fst st)"
  then show "fset (fmdom (rs_rooms (fst st))) = fst ` rs_pairs (fst st)"
    by (force simp: rs_pairs_def rs_wf_def fmlookup_dom_iff image_iff)
next
  fix st st' :: "room_store \<times> 's" and e res
  assume wf: "rs_wf (fst st)" and step: "rs_step e st = (res, st')"
  show "rs_wf (fst st')"
    using wf step by (cases "(e, st)" rule: rs_step.cases; cases st')
      (auto dest: rs_join_pairs rs_leave_pairs split: prod.splits)
next
  fix st st' :: "room_store \<times> 's" and e
  assume wf: "rs_wf (fst st)" and step: "rs_step e st = (None, st')"
  show "rs_pairs (fst st') = effect (rs_op_of e) (rs_pairs (fst st))"
    using wf step by (cases "(e, st)" rule: rs_step.cases; cases st')
      (auto dest: rs_join_pairs rs_leave_pairs split: prod.splits)
next
  fix st st' :: "room_store \<times> 's" and e er
  assume wf: "rs_wf (fst st)" and step: "rs_step e st = (Some er, st')"
  show "rs_pairs (fst st') = rs_pairs (fst st)"
    using wf step by (cases "(e, st)" rule: rs_step.cases; cases st')
      (auto dest: rs_join_pairs rs_leave_pairs split: prod.splits)
qed

section \<open>Room IDs\<close>

definition ids_agree :: "('s \<Rightarrow> string \<Rightarrow> room option) \<Rightarrow> room_store \<Rightarrow> 's \<Rightarrow> bool" where
  "ids_agree active st s \<longleftrightarrow>
     (\<forall>n e. fmlookup (rs_rooms st) n = Some e \<longrightarrow> (\<exists>rm. active s n = Some rm \<and> room_ID rm = entry_id e))"

context room_repository
begin

lemma rs_join_ids:
  assumes "inv s" and "canonical (NewRoom uuid now r)" and ids: "ids_agree active st s"
    and "rs_JoinRoom R uuid now r u (st, s) = (res, st', s')"
  shows "inv s'" and "ids_agree active st' s'" and "active s k = Some rm \<Longrightarrow> active s' k = Some rm"
proof -
  note spec = find_or_create_spec [OF assms(1,2)]
  have "inv s' \<and> ids_agree active st' s' \<and> (\<forall>k rm. active s k = Some rm \<longrightarrow> active s' k = Some rm)"
    using assms(4)
  proof (cases rule: rs_join_cases)
    case (known e)
    with ids assms(1) show ?thesis by (auto simp: ids_agree_def)
  next
    case (new rm)
    note keep = spec(1,2) [OF new(2)] and found = spec(3) [OF new(2) refl]
    have "ids_agree active st' s'"
      unfolding ids_agree_def
    proof (intro allI impI)
      fix n e assume "fmlookup (rs_rooms st') n = Some e"
      then consider "n = r" "entry_id e = room_ID rm" | "n \<noteq> r" "fmlookup (rs_rooms st) n = Some e"
        by (auto simp: new split: if_splits)
      then show "\<exists>rm. active s' n = Some rm \<and> room_ID rm = entry_id e"
        using found ids keep(2) by cases (force simp: ids_agree_def)+
    qed
    with keep show ?thesis by blast
  next
    case (failed e)
    have "ids_agree active st' s'"
      using ids spec(2) [OF failed(2)] unfolding ids_agree_def failed(4) by blast
    with spec(1,2) [OF failed(2)] show ?thesis by blast
  qed
  then show "inv s'" and "ids_agree active st' s'" and "active s k = Some rm \<Longrightarrow> active s' k = Some rm"
    by auto
qed

end

lemma rs_leave_ids: "rs_LeaveRoom r u st = (res, st') \<Longrightarrow> ids_agree active st s \<Longrightarrow> ids_agree active st' s"
  by (erule rs_leave_cases) (auto simp: ids_agree_def split: if_splits)

text \<open>Operations over PostgreSQL: any outcome of the statements, fresh IDs in canonical form.\<close>

fun pg_op :: "uuid_conv \<Rightarrow> ts_conv \<Rightarrow> db_state rs_op \<Rightarrow> bool" where
  "pg_op uuid ts (RsJoin R i now r u) \<longleftrightarrow> R \<in> range (pg_room_repo uuid ts) \<and> uuid i = Some i"
| "pg_op uuid ts (RsLeave r u) \<longleftrightarrow> True"

lemma rs_step_ids:
  assumes "pg_op uuid ts op" and "db_inv s" and "ids_agree active_room st s"
    and "rs_step op (st, s) = (res, st', s')"
  shows "db_inv s' \<and> ids_agree active_room st' s' \<and> (active_room s k = Some rm \<longrightarrow> active_room s' k = Some rm)"
proof (cases op)
  case (RsJoin R i now r u)
  then obtain q where R: "R = pg_room_repo uuid ts q" and i: "uuid i = Some i" using assms(1) by auto
  have c: "canonical_room uuid (NewRoom i now r)" using i by (simp add: canonical_room_def NewRoom_def)
  show ?thesis
    using pg_rooms.rs_join_ids [OF assms(2) c assms(3)] assms(4) RsJoin R by simp
next
  case (RsLeave r u)
  with assms show ?thesis by (auto split: prod.splits dest: rs_leave_ids)
qed

lemma rs_run_ids:
  assumes "list_all (pg_op uuid ts) ops" and "db_inv s" and "ids_agree active_room st s"
    and "run_ops rs_step ops (st, s) = (oks, st', s')"
  shows "db_inv s' \<and> ids_agree active_room st' s' \<and> (\<forall>k rm. active_room s k = Some rm \<longrightarrow> active_room s' k = Some rm)"
  using assms
proof (induction ops arbitrary: st s oks)
  case (Cons op ops)
  obtain res st1 s1 where step: "rs_step op (st, s) = (res, st1, s1)" by (metis prod_cases3)
  obtain oks' where run: "run_ops rs_step ops (st1, s1) = (oks', st', s')"
    using Cons.prems(4) step by (cases "run_ops rs_step ops (st1, s1)") (auto split: if_splits)
  have "pg_op uuid ts op" "list_all (pg_op uuid ts) ops" using Cons.prems(1) by auto
  with rs_step_ids [OF _ Cons.prems(2,3) step] Cons.IH [OF _ _ _ run] show ?case by blast
qed simp

section \<open>Properties\<close>

text \<open>
  C15. After any history of joins and leaves, some of which may fail, a user is listed in a room
  exactly if the last successful operation about the two was a join; the rooms listed are exactly
  those with a member, each once, and leaving fails exactly for the others.
\<close>

theorem RoomStore_membership:
  assumes "run_ops rs_step ops (NewRoomStore, s) = (oks, st, s')" and "iteration_order ord"
  shows "(u \<in> set (snd (rs_ListRoomMembers ord r st)) \<longleftrightarrow> member_after r u (map rs_op_of oks) False) \<and>
    (r \<in> set (rs_ListRooms ord st) \<longleftrightarrow> (\<exists>v. member_after r v (map rs_op_of oks) False)) \<and>
    (fst (rs_LeaveRoom r u st) = None \<longleftrightarrow> r \<in> set (rs_ListRooms ord st)) \<and>
    distinct (rs_ListRooms ord st) \<and> distinct (snd (rs_ListRoomMembers ord r st))"
proof -
  have "rs_wf NewRoomStore" "rs_pairs NewRoomStore = {}"
    by (simp_all add: rs_wf_def rs_pairs_def NewRoomStore_def)
  then have init: "rs_wf (fst (NewRoomStore, s))" "rs_pairs (fst (NewRoomStore, s)) = {}" by simp_all
  have "list_all (\<lambda>op. True) ops" by (simp add: list_all_iff)
  note run = rs.run_member [OF init this assms(1)]
  have "u \<in> set (snd (rs_ListRoomMembers ord r st)) \<longleftrightarrow> (r, u) \<in> rs_pairs st"
    using assms(2) by (auto simp: rs_ListRoomMembers_def rs_pairs_def iteration_order_set split: option.splits)
  moreover have "r \<in> set (rs_ListRooms ord st) \<longleftrightarrow> r |\<in>| fmdom (rs_rooms st)"
    using assms(2) by (simp add: rs_ListRooms_def iteration_order_set)
  moreover have "fst (rs_LeaveRoom r u st) = None \<longleftrightarrow> r |\<in>| fmdom (rs_rooms st)"
    by (auto simp: rs_LeaveRoom_def fmdom_lookup Let_def split: option.splits)
  moreover have "distinct (rs_ListRooms ord st) \<and> distinct (snd (rs_ListRoomMembers ord r st))"
    using assms(2) by (auto simp: rs_ListRooms_def rs_ListRoomMembers_def iteration_order_distinct split: option.splits)
  ultimately show ?thesis using run by simp
qed

theorem RoomStore_membership_witness:
  "\<exists>oks st s'. run_ops rs_step
      [RsJoin (pg_room_repo Some id Runs) ''r1'' (Time 0) ''lobby'' ''alice'', RsLeave ''lobby'' ''bob'']
      (NewRoomStore, empty_db) = (oks, st, s') \<and>
    ''alice'' \<in> set (snd (rs_ListRoomMembers sorted_list_of_fset ''lobby'' st))"
proof -
  let ?ops = "[RsJoin (pg_room_repo Some id Runs) ''r1'' (Time 0) ''lobby'' ''alice'', RsLeave ''lobby'' ''bob'']"
  obtain oks st s' where run: "run_ops rs_step ?ops (NewRoomStore, empty_db) = (oks, st, s')" by (metis prod_cases3)
  have "oks = ?ops"
    using run by (auto simp: rs_JoinRoom_def rs_LeaveRoom_def NewRoomStore_def find_or_create_room_def pg_room_repo_def
        RoomRepo_FindByRoomName_def RoomRepo_Create_def query_row_def exec_sql_Runs empty_db_def NewRoom_def
        newRoomEntry_def Let_def)
  with RoomStore_membership [OF run iteration_order_sorted, of "''alice''" "''lobby''"]
  have "''alice'' \<in> set (snd (rs_ListRoomMembers sorted_list_of_fset ''lobby'' st))" by simp
  with run show ?thesis by blast
qed

text \<open>
  Room IDs come from the database and are stable: after any history over PostgreSQL, with any
  failures of its statements, the ID of a room the store holds is the ID of the room's row; rows
  that were there before are still there, so a room that empties and is joined again has its old ID.
\<close>

theorem RoomStore_stable_ids:
  assumes "run_ops rs_step ops (NewRoomStore, db) = (oks, st, db')"
    and "list_all (pg_op uuid ts) ops" and "db_inv db"
  shows "db_inv db' \<and>
    (\<forall>n. rs_GetRoomID n st = '''' \<or>
       map_option room_ID (active_room db' n) = Some (rs_GetRoomID n st)) \<and>
    (\<forall>n rm. active_room db n = Some rm \<longrightarrow>
       active_room db' n = Some rm \<and> rs_GetRoomID n st \<in> {'''', room_ID rm})"
proof -
  have "ids_agree active_room NewRoomStore db" by (simp add: ids_agree_def NewRoomStore_def)
  from rs_run_ids [OF assms(2,3) this assms(1)]
  have *: "db_inv db'" "ids_agree active_room st db'" "\<And>k rm. active_room db k = Some rm \<Longrightarrow> active_room db' k = Some rm"
    by auto
  have id: "rs_GetRoomID n st = '''' \<or> map_option room_ID (active_room db' n) = Some (rs_GetRoomID n st)" for n
    using *(2) by (auto simp: rs_GetRoomID_def ids_agree_def split: option.splits)
  have "rs_GetRoomID n st \<in> {'''', room_ID rm}" if "active_room db n = Some rm" for n rm
    using id [of n] *(3) [OF that] by auto
  with *(1,3) id show ?thesis by blast
qed

theorem RoomStore_stable_ids_witness:
  "\<exists>oks st db'. run_ops rs_step
     [RsJoin (pg_room_repo Some id Runs) ''r1'' (Time 0) ''lobby'' ''alice'', RsLeave ''lobby'' ''alice'',
      RsJoin (pg_room_repo Some id Runs) ''r2'' (Time 1) ''lobby'' ''bob''] (NewRoomStore, empty_db) = (oks, st, db') \<and>
     rs_GetRoomID ''lobby'' st = ''r1'' \<and> map_option room_ID (active_room db' ''lobby'') = Some ''r1''"
proof -
  let ?ops = "[RsJoin (pg_room_repo Some id Runs) ''r1'' (Time 0) ''lobby'' ''alice'', RsLeave ''lobby'' ''alice'',
      RsJoin (pg_room_repo Some id Runs) ''r2'' (Time 1) ''lobby'' ''bob'']"
  obtain oks st db' where run: "run_ops rs_step ?ops (NewRoomStore, empty_db) = (oks, st, db')" by (metis prod_cases3)
  have id: "rs_GetRoomID ''lobby'' st = ''r1''"
    using run by (auto simp: rs_JoinRoom_def rs_LeaveRoom_def NewRoomStore_def find_or_create_room_def pg_room_repo_def
        RoomRepo_FindByRoomName_def RoomRepo_Create_def query_row_def exec_sql_Runs empty_db_def NewRoom_def
        newRoomEntry_def Let_def rs_GetRoomID_def)
  have "list_all (pg_op Some id) ?ops" "db_inv empty_db" by (simp_all add: db_inv_def empty_db_def)
  from RoomStore_stable_ids [OF run this]
  have "rs_GetRoomID ''lobby'' st = '''' \<or>
      map_option room_ID (active_room db' ''lobby'') = Some (rs_GetRoomID ''lobby'' st)" by blast
  with id run show ?thesis by auto
qed

end
