(* ===== verification/Router.thy ===== *)
theory Router
  imports Membership Protocol
begin

text \<open>
  internal/messaging/messaging.go: the gateway's message router. It keeps the active rooms with the
  connections of their members, and a connection per user name for direct messages. The network
  is a function from connection handles to connection states (theory Protocol). Every method holds
  the mutex and is one step; \<open>range\<close> loops take the iteration order \<open>ord\<close>.
\<close>

type_synonym network = "conn \<Rightarrow> conn_st"

definition send :: "string \<Rightarrow> conn \<Rightarrow> network \<Rightarrow> go_error option \<times> network" where
  "send dat c net = (case WriteMessage dat (net c) of (e, st) \<Rightarrow> (e, net(c := st)))"

section \<open>Messages\<close>

definition NewMessage :: "string \<Rightarrow> time \<Rightarrow> string \<Rightarrow> string \<Rightarrow> message" where
  "NewMessage uuid now from body = domain_NewMessage uuid now '''' '''' from body"

definition NewSystemMessage :: "string \<Rightarrow> time \<Rightarrow> string \<Rightarrow> string \<Rightarrow> message" where
  "NewSystemMessage uuid now roomID body =
     domain_NewMessage uuid now SystemSenderID roomID SystemUsername body"

definition NewUserMessage :: "string \<Rightarrow> time \<Rightarrow> string \<Rightarrow> string \<Rightarrow> string \<Rightarrow> string \<Rightarrow> message" where
  "NewUserMessage uuid now senderID roomID from body =
     domain_NewMessage uuid now senderID roomID from body"

section \<open>The router\<close>

record room_session =
  Room :: room
  Members :: "(string, conn) fmap"

definition NewRoomSession :: "room \<Rightarrow> room_session" where
  "NewRoomSession rm = \<lparr>Room = rm, Members = fmempty\<rparr>"

record router =
  rt_rooms :: "(string, room_session) fmap"
  rt_users :: "(string, conn) fmap"

definition NewInMemoryMessageRouter :: router where
  "NewInMemoryMessageRouter = \<lparr>rt_rooms = fmempty, rt_users = fmempty\<rparr>"

definition rt_JoinRoom ::
  "'s room_repo \<Rightarrow> string \<Rightarrow> time \<Rightarrow> string \<Rightarrow> string \<Rightarrow> conn option \<Rightarrow> router \<times> 's \<Rightarrow>
   go_error option \<times> router \<times> 's" where
  "rt_JoinRoom R uuid now roomName username conn_arg = (\<lambda>(st, s).
     case conn_arg of
       None \<Rightarrow> (Some (Err ''conn must not be nil''), st, s)
     | Some c \<Rightarrow>
         (let join = (\<lambda>session.
                st\<lparr>rt_rooms := fmupd roomName
                     (session\<lparr>Members := fmupd username c (Members session)\<rparr>) (rt_rooms st),
                   rt_users := fmupd username c (rt_users st)\<rparr>)
          in case fmlookup (rt_rooms st) roomName of
               Some roomSession \<Rightarrow> (None, join roomSession, s)
             | None \<Rightarrow>
                 (case find_or_create_room R uuid now roomName s of
                    (Inl e, s) \<Rightarrow> (Some e, st, s)
                  | (Inr rm, s) \<Rightarrow> (None, join (NewRoomSession rm), s))))"

definition rt_LeaveRoom :: "string \<Rightarrow> string \<Rightarrow> router \<Rightarrow> go_error option \<times> router" where
  "rt_LeaveRoom roomName username st =
     (case fmlookup (rt_rooms st) roomName of
        None \<Rightarrow> (Some (no_such_room roomName), st)
      | Some rm \<Rightarrow>
          (let rm = rm\<lparr>Members := fmdrop username (Members rm)\<rparr> in
           if fmdom (Members rm) = {||} then (None, st\<lparr>rt_rooms := fmdrop roomName (rt_rooms st)\<rparr>)
           else (None, st\<lparr>rt_rooms := fmupd roomName rm (rt_rooms st)\<rparr>)))"

definition broadcast_text :: "room \<Rightarrow> message \<Rightarrow> string" where
  "broadcast_text rm msg = ''['' @ Name rm @ ''] '' @ From msg @ '': '' @ Body msg"

text \<open>A failed delivery is logged and skipped: the loop drops the result of the write.\<close>

definition rt_BroadcastRoom ::
  "(string fset \<Rightarrow> string list) \<Rightarrow> string \<Rightarrow> message \<Rightarrow> router \<Rightarrow> network \<Rightarrow> go_error option \<times> network" where
  "rt_BroadcastRoom ord roomName msg st net =
     (case fmlookup (rt_rooms st) roomName of
        None \<Rightarrow> (Some (no_such_room roomName), net)
      | Some rm \<Rightarrow>
          (None, fold (\<lambda>username net.
                   case fmlookup (Members rm) username of
                     None \<Rightarrow> net
                   | Some c \<Rightarrow> snd (send (broadcast_text (Room rm) msg) c net))
                 (ord (fmdom (Members rm))) net))"

definition rt_SendTo :: "string \<Rightarrow> string \<Rightarrow> router \<Rightarrow> network \<Rightarrow> go_error option \<times> network" where
  "rt_SendTo username dat st net =
     (case fmlookup (rt_users st) username of
        None \<Rightarrow> (Some (Err (''user '' @ username @ '' is not online'')), net)
      | Some c \<Rightarrow> send dat c net)"

definition rt_GetRoomID :: "string \<Rightarrow> router \<Rightarrow> string" where
  "rt_GetRoomID roomName st =
     (case fmlookup (rt_rooms st) roomName of None \<Rightarrow> '''' | Some session \<Rightarrow> room_ID (Room session))"

definition drop_member :: "string \<Rightarrow> string \<Rightarrow> (string, room_session) fmap \<Rightarrow> (string, room_session) fmap" where
  "drop_member username roomName m =
     (case fmlookup m roomName of
        None \<Rightarrow> m
      | Some rm \<Rightarrow>
          (let rm = rm\<lparr>Members := fmdrop username (Members rm)\<rparr> in
           if fmdom (Members rm) = {||} then fmdrop roomName m else fmupd roomName rm m))"

definition rt_Disconnect :: "(string fset \<Rightarrow> string list) \<Rightarrow> string \<Rightarrow> router \<Rightarrow> router" where
  "rt_Disconnect ord username st =
     st\<lparr>rt_rooms := fold (drop_member username) (ord (fmdom (rt_rooms st))) (rt_rooms st),
        rt_users := fmdrop username (rt_users st)\<rparr>"

text \<open>\<open>ListRooms\<close> returns the names in the room records, not the keys of the map.\<close>

definition rt_ListRooms :: "(string fset \<Rightarrow> string list) \<Rightarrow> router \<Rightarrow> string list" where
  "rt_ListRooms ord st =
     map (\<lambda>k. Name (Room (the (fmlookup (rt_rooms st) k)))) (ord (fmdom (rt_rooms st)))"

definition rt_ListRoomMembers ::
  "(string fset \<Rightarrow> string list) \<Rightarrow> string \<Rightarrow> router \<Rightarrow> go_error option \<times> string list" where
  "rt_ListRoomMembers ord roomName st =
     (case fmlookup (rt_rooms st) roomName of
        None \<Rightarrow> (Some (no_such_room roomName), [])
      | Some rm \<Rightarrow> (None, ord (fmdom (Members rm))))"

definition rt_PrintRooms ::
  "(string fset \<Rightarrow> string list) \<Rightarrow> conn option \<Rightarrow> router \<Rightarrow> network \<Rightarrow> go_error option \<times> network" where
  "rt_PrintRooms ord conn_arg st net =
     (case conn_arg of
        None \<Rightarrow> (Some (Err ''conn must not be nil''), net)
      | Some c \<Rightarrow>
          if fmdom (rt_rooms st) = {||} then (None, snd (send ''no active rooms'' c net))
          else (None, fold (\<lambda>k net.
                  case fmlookup (rt_rooms st) k of
                    None \<Rightarrow> net
                  | Some rm \<Rightarrow>
                      snd (send (Name (Room rm) @ '' - members: '' @ Join (ord (fmdom (Members rm))) '', '') c net))
                (ord (fmdom (rt_rooms st))) net))"

section \<open>Membership\<close>

datatype 's rt_op =
    RtJoin "'s room_repo" string time string string "conn option"
  | RtLeave string string
  | RtDisconnect "string fset \<Rightarrow> string list" string

fun rt_step :: "'s rt_op \<Rightarrow> router \<times> 's \<Rightarrow> go_error option \<times> router \<times> 's" where
  "rt_step (RtJoin R uuid now r u c) (st, s) = rt_JoinRoom R uuid now r u c (st, s)"
| "rt_step (RtLeave r u) (st, s) = (case rt_LeaveRoom r u st of (e, st') \<Rightarrow> (e, st', s))"
| "rt_step (RtDisconnect ord u) (st, s) = (None, rt_Disconnect ord u st, s)"

fun rt_op_of :: "'s rt_op \<Rightarrow> room_op" where
  "rt_op_of (RtJoin R uuid now r u c) = Joins r u"
| "rt_op_of (RtLeave r u) = Leaves r u"
| "rt_op_of (RtDisconnect ord u) = Disconnects u"

fun rt_legal :: "'s rt_op \<Rightarrow> bool" where
  "rt_legal (RtDisconnect ord u) \<longleftrightarrow> iteration_order ord"
| "rt_legal op \<longleftrightarrow> True"

definition rt_pairs :: "router \<Rightarrow> (string \<times> string) set" where
  "rt_pairs st = {(r, u). \<exists>e. fmlookup (rt_rooms st) r = Some e \<and> u |\<in>| fmdom (Members e)}"

definition rt_wf :: "router \<Rightarrow> bool" where
  "rt_wf st \<longleftrightarrow> (\<forall>r e. fmlookup (rt_rooms st) r = Some e \<longrightarrow> fmdom (Members e) \<noteq> {||})"

lemma rt_join_cases:
  assumes "rt_JoinRoom R uuid now r u c (st, s) = (res, st', s')"
  obtains (no_conn) e where "c = None" "res = Some e" "st' = st" "s' = s"
    | (known) cn e where "c = Some cn" "fmlookup (rt_rooms st) r = Some e" "res = None" "s' = s"
      "rt_rooms st' = fmupd r (e\<lparr>Members := fmupd u cn (Members e)\<rparr>) (rt_rooms st)"
      "rt_users st' = fmupd u cn (rt_users st)"
    | (new) cn rm where "c = Some cn" "fmlookup (rt_rooms st) r = None"
      "find_or_create_room R uuid now r s = (Inr rm, s')" "res = None"
      "rt_rooms st' = fmupd r \<lparr>Room = rm, Members = fmupd u cn fmempty\<rparr> (rt_rooms st)"
      "rt_users st' = fmupd u cn (rt_users st)"
    | (failed) e where "fmlookup (rt_rooms st) r = None" "find_or_create_room R uuid now r s = (Inl e, s')"
      "res = Some e" "st' = st"
proof (cases "\<exists>cn. c = Some cn")
  case True
  then obtain cn where c: "c = Some cn" by blast
  show ?thesis
  proof (cases "fmlookup (rt_rooms st) r")
    case None
    obtain rm_res s1 where f: "find_or_create_room R uuid now r s = (rm_res, s1)" by fastforce
    show ?thesis
      using assms c None f
      by (cases rm_res) (auto simp: rt_JoinRoom_def NewRoomSession_def Let_def intro: new failed)
  next
    case (Some e)
    with assms c show ?thesis by (auto simp: rt_JoinRoom_def Let_def intro: known)
  qed
next
  case False
  with assms show ?thesis by (auto simp: rt_JoinRoom_def intro: no_conn)
qed

lemma rt_leave_cases:
  assumes "rt_LeaveRoom r u st = (res, st')"
  obtains (absent) "fmlookup (rt_rooms st) r = None" "res = Some (no_such_room r)" "st' = st"
    | (last) e where "fmlookup (rt_rooms st) r = Some e" "fmdom (Members e) |-| {|u|} = {||}" "res = None"
      "rt_rooms st' = fmdrop r (rt_rooms st)" "rt_users st' = rt_users st"
    | (left) e where "fmlookup (rt_rooms st) r = Some e" "fmdom (Members e) |-| {|u|} \<noteq> {||}" "res = None"
      "rt_rooms st' = fmupd r (e\<lparr>Members := fmdrop u (Members e)\<rparr>) (rt_rooms st)" "rt_users st' = rt_users st"
  using assms by (auto simp: rt_LeaveRoom_def Let_def split: option.splits if_splits)

lemma rt_disconnect_lookup:
  assumes "iteration_order ord"
  shows "fmlookup (rt_rooms (rt_Disconnect ord u st)) r =
    (case fmlookup (rt_rooms st) r of
       None \<Rightarrow> None
     | Some e \<Rightarrow> if fmdom (Members e) |-| {|u|} = {||} then None else Some (e\<lparr>Members := fmdrop u (Members e)\<rparr>))"
proof -
  have "fmlookup (fold (drop_member u) (ord (fmdom (rt_rooms st))) (rt_rooms st)) r =
    (\<lambda>k v. case v of None \<Rightarrow> None | Some e \<Rightarrow> if fmdom (Members e) |-| {|u|} = {||} then None
        else Some (e\<lparr>Members := fmdrop u (Members e)\<rparr>)) r (fmlookup (rt_rooms st) r)"
    by (rule fold_over_map [OF _ assms]) (auto simp: drop_member_def Let_def split: option.splits)
  then show ?thesis by (simp add: rt_Disconnect_def)
qed

lemma rt_join_pairs:
  assumes "rt_JoinRoom R uuid now r u c (st, s) = (res, st', s')" and "rt_wf st"
  shows "rt_wf st'" and "rt_pairs st' = (if res = None then insert (r, u) (rt_pairs st) else rt_pairs st)"
  using assms(1)
  by (cases rule: rt_join_cases; insert assms(2); auto simp: rt_wf_def rt_pairs_def split: if_splits)+

lemma rt_leave_pairs:
  assumes "rt_LeaveRoom r u st = (res, st')" and "rt_wf st"
  shows "rt_wf st'" and "rt_pairs st' = (if res = None then rt_pairs st - {(r, u)} else rt_pairs st)"
  using assms(1)
  by (cases rule: rt_leave_cases; insert assms(2); auto simp: rt_wf_def rt_pairs_def split: if_splits)+

lemma rt_disconnect_pairs:
  assumes "iteration_order ord"
  shows "rt_wf (rt_Disconnect ord u st)" and "rt_pairs (rt_Disconnect ord u st) = {p \<in> rt_pairs st. snd p \<noteq> u}"
  by (auto simp: rt_wf_def rt_pairs_def rt_disconnect_lookup [OF assms] split: option.splits if_splits)

interpretation rt: room_membership rt_step rt_op_of "\<lambda>st. rt_pairs (fst st)" "\<lambda>st. fset (fmdom (rt_rooms (fst st)))"
  "\<lambda>st. rt_wf (fst st)" rt_legal
proof unfold_locales
  fix st :: "router \<times> 's"
  assume "rt_wf (fst st)"
  then show "fset (fmdom (rt_rooms (fst st))) = fst ` rt_pairs (fst st)"
    by (force simp: rt_pairs_def rt_wf_def fmlookup_dom_iff image_iff)
next
  fix st st' :: "router \<times> 's" and e res
  assume wf: "rt_wf (fst st)" and "rt_legal e" and "rt_step e st = (res, st')"
  then show "rt_wf (fst st')"
    by (cases "(e, st)" rule: rt_step.cases; cases st')
      (auto dest: rt_join_pairs rt_leave_pairs simp: rt_disconnect_pairs split: prod.splits)
next
  fix st st' :: "router \<times> 's" and e
  assume wf: "rt_wf (fst st)" and "rt_legal e" and "rt_step e st = (None, st')"
  then show "rt_pairs (fst st') = effect (rt_op_of e) (rt_pairs (fst st))"
    by (cases "(e, st)" rule: rt_step.cases; cases st')
      (auto dest: rt_join_pairs rt_leave_pairs simp: rt_disconnect_pairs split: prod.splits)
next
  fix st st' :: "router \<times> 's" and e er
  assume wf: "rt_wf (fst st)" and "rt_legal e" and "rt_step e st = (Some er, st')"
  then show "rt_pairs (fst st') = rt_pairs (fst st)"
    by (cases "(e, st)" rule: rt_step.cases; cases st')
      (auto dest: rt_join_pairs rt_leave_pairs split: prod.splits)
qed

section \<open>Connections of users\<close>

text \<open>The connection of a user after a history: that of the last join, until a disconnect.\<close>

fun last_conn :: "string \<Rightarrow> 's rt_op list \<Rightarrow> conn option \<Rightarrow> conn option" where
  "last_conn u [] c = c"
| "last_conn u (RtJoin R uuid now r u' c' # ops) c = last_conn u ops (if u = u' then c' else c)"
| "last_conn u (RtLeave r u' # ops) c = last_conn u ops c"
| "last_conn u (RtDisconnect ord u' # ops) c = last_conn u ops (if u = u' then None else c)"

lemma rt_step_users:
  assumes "rt_step op (st, s) = (res, st', s')"
  shows "fmlookup (rt_users st') u = (if res = None then last_conn u [op] (fmlookup (rt_users st) u) else fmlookup (rt_users st) u)"
proof (cases op)
  case (RtJoin R uuid now r u' c)
  with assms have "rt_JoinRoom R uuid now r u' c (st, s) = (res, st', s')" by simp
  then show ?thesis by (cases rule: rt_join_cases) (auto simp: RtJoin)
next
  case (RtLeave r u')
  with assms have "rt_LeaveRoom r u' st = (res, st')" by (simp split: prod.splits)
  then show ?thesis by (cases rule: rt_leave_cases) (auto simp: RtLeave)
next
  case (RtDisconnect ord u')
  with assms show ?thesis by (auto simp: rt_Disconnect_def)
qed

lemma last_conn_Cons: "last_conn u (op # ops) c = last_conn u ops (last_conn u [op] c)"
  by (cases op) simp_all

lemma rt_run_users:
  assumes "run_ops rt_step ops (st, s) = (oks, st', s')"
  shows "fmlookup (rt_users st') u = last_conn u oks (fmlookup (rt_users st) u)"
  using assms
proof (induction ops arbitrary: st s oks)
  case (Cons op ops)
  obtain res st1 s1 where step: "rt_step op (st, s) = (res, st1, s1)" by (metis prod_cases3)
  obtain oks' where run: "run_ops rt_step ops (st1, s1) = (oks', st', s')"
    and oks: "oks = (if res = None then op # oks' else oks')"
    using Cons.prems step by (cases "run_ops rt_step ops (st1, s1)") (auto split: if_splits)
  show ?case
    using Cons.IH [OF run] rt_step_users [OF step] unfolding oks by (cases res) (simp_all add: last_conn_Cons [of u op oks'])
qed simp

section \<open>Delivery\<close>

text \<open>A loop that sends one text to the connections of a list of users.\<close>

lemma send_snd: "snd (send dat c net) = net(c := snd (WriteMessage dat (net c)))"
  by (simp add: send_def case_prod_beta)

lemma fold_sends:
  "fold (\<lambda>u net. case f u of None \<Rightarrow> net | Some c \<Rightarrow> snd (send dat c net)) us net c =
   ((\<lambda>x. snd (WriteMessage dat x)) ^^ length (filter (\<lambda>u. f u = Some c) us)) (net c)"
  by (induction us arbitrary: net) (auto simp: send_snd funpow_Suc_right simp del: funpow.simps(2) split: option.splits)

lemma member_count:
  assumes "iteration_order ord"
  shows "length (filter (\<lambda>u. fmlookup m u = Some c) (ord (fmdom m))) = card {u. fmlookup m u = Some c}"
proof -
  have "length (filter (\<lambda>u. fmlookup m u = Some c) (ord (fmdom m))) =
      card (set (filter (\<lambda>u. fmlookup m u = Some c) (ord (fmdom m))))"
    using assms by (metis distinct_card distinct_filter iteration_order_distinct)
  also have "set (filter (\<lambda>u. fmlookup m u = Some c) (ord (fmdom m))) = {u. fmlookup m u = Some c}"
    using assms by (auto simp: iteration_order_set fmlookup_dom_iff)
  finally show ?thesis .
qed

lemma rt_BroadcastRoom_net:
  assumes "iteration_order ord" and "fmlookup (rt_rooms st) r = Some rm"
  shows "rt_BroadcastRoom ord r msg st net = (None, snd (rt_BroadcastRoom ord r msg st net))"
    and "snd (rt_BroadcastRoom ord r msg st net) c =
      ((\<lambda>x. snd (WriteMessage (broadcast_text (Room rm) msg) x)) ^^ card {u. fmlookup (Members rm) u = Some c}) (net c)"
  using assms(2) fold_sends [where f = "fmlookup (Members rm)" and us = "ord (fmdom (Members rm))" and net = net and c = c]
  by (simp_all add: rt_BroadcastRoom_def member_count [OF assms(1)])

lemma WriteMessage_repeat:
  assumes "wcap x = None"
  shows "((\<lambda>x. snd (WriteMessage dat x)) ^^ k) x = x\<lparr>outb := outb x @ concat (replicate k (encode dat))\<rparr>"
  using assms by (induction k arbitrary: x) (simp_all add: WriteMessage_None funpow_Suc_right del: funpow.simps(2))

section \<open>Properties\<close>

text \<open>
  C14. After any history of joins, leaves and disconnects, some of which may fail, a user is listed
  in a room exactly if the last successful operation about the two was a join, a disconnect counting
  as leaving every room; and leaving a room, listing its members and broadcasting to it fail exactly
  if the room has no member.
\<close>

theorem Router_membership:
  assumes "run_ops rt_step ops (NewInMemoryMessageRouter, s) = (oks, st, s')"
    and "list_all rt_legal ops" and "iteration_order ord"
  shows "(u \<in> set (snd (rt_ListRoomMembers ord r st)) \<longleftrightarrow> member_after r u (map rt_op_of oks) False) \<and>
    (let live = (\<exists>v. member_after r v (map rt_op_of oks) False) in
     (fst (rt_LeaveRoom r u st) = None \<longleftrightarrow> live) \<and> (fst (rt_ListRoomMembers ord r st) = None \<longleftrightarrow> live) \<and>
     (fst (rt_BroadcastRoom ord r msg st net) = None \<longleftrightarrow> live))"
proof -
  have init: "rt_wf (fst (NewInMemoryMessageRouter, s))" "rt_pairs (fst (NewInMemoryMessageRouter, s)) = {}"
    by (simp_all add: rt_wf_def rt_pairs_def NewInMemoryMessageRouter_def)
  note run = rt.run_member [OF init assms(2,1)]
  have "u \<in> set (snd (rt_ListRoomMembers ord r st)) \<longleftrightarrow> (r, u) \<in> rt_pairs st"
    using assms(3) by (auto simp: rt_ListRoomMembers_def rt_pairs_def iteration_order_set split: option.splits)
  moreover have "fst (rt_LeaveRoom r u st) = None \<longleftrightarrow> r |\<in>| fmdom (rt_rooms st)"
    "fst (rt_ListRoomMembers ord r st) = None \<longleftrightarrow> r |\<in>| fmdom (rt_rooms st)"
    "fst (rt_BroadcastRoom ord r msg st net) = None \<longleftrightarrow> r |\<in>| fmdom (rt_rooms st)"
    by (auto simp: rt_LeaveRoom_def rt_ListRoomMembers_def rt_BroadcastRoom_def fmdom_lookup Let_def split: option.splits)
  ultimately show ?thesis using run by (simp add: Let_def)
qed

theorem Router_membership_witness:
  "\<exists>oks st s'. run_ops rt_step
      [RtJoin (pg_room_repo Some id Runs) ''r1'' (Time 0) ''lobby'' ''alice'' (Some 1),
       RtJoin (pg_room_repo Some id Runs) ''r2'' (Time 1) ''lobby'' ''bob'' (Some 2),
       RtDisconnect sorted_list_of_fset ''alice''] (NewInMemoryMessageRouter, empty_db) = (oks, st, s') \<and>
    ''bob'' \<in> set (snd (rt_ListRoomMembers sorted_list_of_fset ''lobby'' st)) \<and>
    ''alice'' \<notin> set (snd (rt_ListRoomMembers sorted_list_of_fset ''lobby'' st))"
proof -
  let ?ops = "[RtJoin (pg_room_repo Some id Runs) ''r1'' (Time 0) ''lobby'' ''alice'' (Some 1),
       RtJoin (pg_room_repo Some id Runs) ''r2'' (Time 1) ''lobby'' ''bob'' (Some 2),
       RtDisconnect sorted_list_of_fset ''alice'']"
  obtain oks st s' where run: "run_ops rt_step ?ops (NewInMemoryMessageRouter, empty_db) = (oks, st, s')"
    by (metis prod_cases3)
  have oks: "oks = ?ops"
    using run by (auto simp: rt_JoinRoom_def NewInMemoryMessageRouter_def find_or_create_room_def pg_room_repo_def
        RoomRepo_FindByRoomName_def RoomRepo_Create_def query_row_def exec_sql_Runs empty_db_def NewRoom_def
        NewRoomSession_def Let_def)
  have legal: "list_all rt_legal ?ops" by (simp add: iteration_order_sorted)
  note mem = Router_membership [OF run legal iteration_order_sorted, THEN conjunct1]
  from mem [of "''bob''" "''lobby''"] mem [of "''alice''" "''lobby''"] run show ?thesis by (auto simp: oks)
qed

text \<open>
  A direct message goes to the connection of the user's last successful join, also after the user
  has left every room, and is refused, with nothing written, exactly if there was none since the last
  disconnect. No other connection is touched.
\<close>

theorem SendTo_last_conn:
  assumes "run_ops rt_step ops (NewInMemoryMessageRouter, s) = (oks, st, s')"
  shows "rt_SendTo u dat st net =
    (case last_conn u oks None of
       None \<Rightarrow> (Some (Err (''user '' @ u @ '' is not online'')), net)
     | Some c \<Rightarrow> (fst (WriteMessage dat (net c)), net(c := snd (WriteMessage dat (net c)))))"
  using rt_run_users [OF assms, of u]
  by (simp add: rt_SendTo_def NewInMemoryMessageRouter_def send_def case_prod_beta split: option.splits)

theorem SendTo_last_conn_witness:
  "\<exists>oks st s'. run_ops rt_step
      [RtJoin (pg_room_repo Some id Runs) ''r1'' (Time 0) ''lobby'' ''alice'' (Some 1),
       RtDisconnect sorted_list_of_fset ''alice''] (NewInMemoryMessageRouter, empty_db) = (oks, st, s') \<and>
    (\<forall>net. rt_SendTo ''alice'' ''hi'' st net = (Some (Err ''user alice is not online''), net))"
proof -
  let ?ops = "[RtJoin (pg_room_repo Some id Runs) ''r1'' (Time 0) ''lobby'' ''alice'' (Some 1),
       RtDisconnect sorted_list_of_fset ''alice'']"
  obtain oks st s' where run: "run_ops rt_step ?ops (NewInMemoryMessageRouter, empty_db) = (oks, st, s')"
    by (metis prod_cases3)
  have "oks = ?ops"
    using run by (auto simp: rt_JoinRoom_def NewInMemoryMessageRouter_def find_or_create_room_def pg_room_repo_def
        RoomRepo_FindByRoomName_def RoomRepo_Create_def query_row_def exec_sql_Runs empty_db_def NewRoom_def
        NewRoomSession_def Let_def)
  with SendTo_last_conn [OF run, of "''alice''" "''hi''"] run show ?thesis by auto
qed

text \<open>
  C13. Broadcasting: whatever the iteration order and whichever writes fail, every connection is
  written the formatted message once per member registered with it, and no other connection is
  touched; on a connection whose writes do not fail these are complete frames.
\<close>

theorem BroadcastRoom_delivery:
  assumes "iteration_order ord" and "fmlookup (rt_rooms st) r = Some rm"
  shows "let (err, net') = rt_BroadcastRoom ord r msg st net;
             k = card {u. fmlookup (Members rm) u = Some c};
             txt = ''['' @ Name (Room rm) @ ''] '' @ From msg @ '': '' @ Body msg
         in err = None \<and> net' c = ((\<lambda>x. snd (WriteMessage txt x)) ^^ k) (net c) \<and>
            (wcap (net c) = None \<longrightarrow> outb (net' c) = outb (net c) @ concat (replicate k (encode txt)))"
  using rt_BroadcastRoom_net [OF assms, of msg net]
  by (auto simp: Let_def case_prod_beta WriteMessage_repeat broadcast_text_def) (metis fst_conv)

theorem BroadcastRoom_delivery_witness:
  "outb (snd (rt_BroadcastRoom sorted_list_of_fset ''lobby'' (NewMessage ''m'' (Time 0) ''alice'' ''hi'')
      \<lparr>rt_rooms = fmupd ''lobby'' \<lparr>Room = NewRoom ''r1'' (Time 0) ''lobby'',
         Members = fmupd ''alice'' 5 (fmupd ''bob'' 7 fmempty)\<rparr> fmempty, rt_users = fmempty\<rparr>
      (\<lambda>c. \<lparr>inb = [], rerr = EOF, outb = [], wcap = (if c = 5 then Some 0 else None)\<rparr>)) 7) =
   encode ''[lobby] alice: hi''"
proof -
  let ?net = "\<lambda>c :: conn. \<lparr>inb = [], rerr = EOF, outb = [], wcap = (if c = 5 then Some 0 else None)\<rparr>"
  let ?rm = "\<lparr>Room = NewRoom ''r1'' (Time 0) ''lobby'', Members = fmupd ''alice'' 5 (fmupd ''bob'' (7 :: conn) fmempty)\<rparr>"
  let ?st = "\<lparr>rt_rooms = fmupd ''lobby'' ?rm fmempty, rt_users = fmempty\<rparr>"
  let ?m = "NewMessage ''m'' (Time 0) ''alice'' ''hi''"
  have "{u. fmlookup (Members ?rm) u = Some 7} = {''bob''}" by auto
  then have k: "card {u. fmlookup (Members ?rm) u = Some 7} = 1" by (simp only: card.empty card.insert finite.emptyI empty_iff not_False_eq_True One_nat_def)
  have fmt: "''['' @ Name (Room ?rm) @ ''] '' @ From ?m @ '': '' @ Body ?m = ''[lobby] alice: hi''"
    by (simp add: NewMessage_def domain_NewMessage_def NewRoom_def)
  have "fmlookup (rt_rooms ?st) ''lobby'' = Some ?rm" by simp
  from BroadcastRoom_delivery [OF iteration_order_sorted this, of ?m ?net 7, unfolded k fmt Let_def]
  show ?thesis by (simp add: case_prod_beta WriteMessage_None)
qed

end
