(* ===== verification/Auth.thy ===== *)
theory Auth
  imports Repository
begin

text \<open>
  internal/auth: the repository-backed \<open>authService\<close> (service.go), its in-memory twin (inmemory.go), and
  the gRPC handlers of cmd/auth-service/server.go on top of either.

  bcrypt, the JWT library, the random source and the clock are an \<open>auth_env\<close>, given per call. A
  service state is the record of its fields; the repository-backed service also threads the state of
  its user repository. Methods of one service are sequential; where \<open>Register\<close> is not atomic its two
  halves are separate definitions.
\<close>

section \<open>The environment\<close>

text \<open>JWT claims, as JSON values, and a parsed token with its header.\<close>

datatype claim = StrClaim string | NumClaim int | OtherClaim

type_synonym claims = "(string, claim) fmap"

record jwt_token =
  is_HMAC :: bool
  alg :: string
  MapClaims :: "claims option"
  Valid :: bool

record auth_env =
  GenerateFromPassword :: "string \<Rightarrow> go_error + string"
  CompareHashAndPassword :: "string \<Rightarrow> string \<Rightarrow> go_error option"
  SignedString :: "claims \<Rightarrow> string \<Rightarrow> go_error + string"
  jwt_Parse :: "string \<Rightarrow> (jwt_token \<Rightarrow> go_error + string) \<Rightarrow> go_error + jwt_token"
  rand_Read :: "go_error + string"
  Now_Unix :: int
  uuid_New :: string
  time_Now :: time

definition err_username :: go_error where "err_username = Err ''username must not be empty''"
definition err_password :: go_error where "err_password = Err ''password must not be empty''"
definition err_credentials :: go_error where "err_credentials = Err ''invalid credentials''"
definition err_token :: go_error where "err_token = Err ''token must not be empty''"
definition err_refresh :: go_error where "err_refresh = Err ''invalid refresh token''"

text \<open>The claims of an access token, valid for a day, and the key function given to \<open>jwt.Parse\<close>.\<close>

definition access_claims :: "auth_env \<Rightarrow> string \<Rightarrow> string \<Rightarrow> claims" where
  "access_claims E username uid =
     fmupd ''sub'' (StrClaim username) (fmupd ''uid'' (StrClaim uid)
       (fmupd ''exp'' (NumClaim (Now_Unix E + 24 * 3600)) fmempty))"

definition key_func :: "string \<Rightarrow> jwt_token \<Rightarrow> go_error + string" where
  "key_func sec t = (if \<not> is_HMAC t then Inl (Err (''unexpected signing method: '' @ alg t)) else Inr sec)"

section \<open>authService\<close>

record auth_service =
  refreshTokens :: "(string, string) fmap"
  secret :: string

definition NewAuthService :: "string \<Rightarrow> auth_service" where
  "NewAuthService sec = \<lparr>refreshTokens = fmempty, secret = sec\<rparr>"

text \<open>\<open>Register\<close> up to the check for an existing user, and from the hashing to the insertion.\<close>

definition as_Register_check :: "'s user_repo \<Rightarrow> string \<Rightarrow> string \<Rightarrow> 's \<Rightarrow> go_error option" where
  "as_Register_check R username password s =
     (if length username = 0 then Some err_username
      else if length password = 0 then Some err_password
      else case ValidateUsername username of
        Some err \<Rightarrow> Some err
      | None \<Rightarrow>
          (case FindByUsername R username s of
             Inl e \<Rightarrow> Some (Wrap ''failed to check existing user'' e)
           | Inr (Some existing) \<Rightarrow> Some (Err ''username already taken'')
           | Inr None \<Rightarrow> None))"

definition as_Register_create ::
  "'s user_repo \<Rightarrow> auth_env \<Rightarrow> string \<Rightarrow> string \<Rightarrow> 's \<Rightarrow> go_error option \<times> 's" where
  "as_Register_create R E username password s =
     (case GenerateFromPassword E password of
        Inl e \<Rightarrow> (Some (Wrap ''failed to generate password hash'' e), s)
      | Inr hash \<Rightarrow>
          (case CreateUser R (NewUser (uuid_New E) (time_Now E) username hash) s of
             (Some e, s) \<Rightarrow> (Some (Wrap ''failed to create user'' e), s)
           | (None, s) \<Rightarrow> (None, s)))"

definition as_Register ::
  "'s user_repo \<Rightarrow> auth_env \<Rightarrow> string \<Rightarrow> string \<Rightarrow> auth_service \<times> 's \<Rightarrow> go_error option \<times> auth_service \<times> 's" where
  "as_Register R E username password = (\<lambda>(as, s).
     case as_Register_check R username password s of
       Some e \<Rightarrow> (Some e, as, s)
     | None \<Rightarrow> (case as_Register_create R E username password s of (res, s) \<Rightarrow> (res, as, s)))"

definition as_IssueRefreshToken :: "auth_env \<Rightarrow> string \<Rightarrow> auth_service \<Rightarrow> (go_error + string) \<times> auth_service" where
  "as_IssueRefreshToken E username as =
     (if length username = 0 then (Inl err_username, as)
      else case rand_Read E of
        Inl e \<Rightarrow> (Inl (Wrap ''failed to generate refresh token'' e), as)
      | Inr bytes \<Rightarrow>
          (let refreshToken = hex_encode bytes in
           (Inr refreshToken, as\<lparr>refreshTokens := fmupd refreshToken username (refreshTokens as)\<rparr>)))"

definition as_Login ::
  "'s user_repo \<Rightarrow> auth_env \<Rightarrow> string \<Rightarrow> string \<Rightarrow> auth_service \<times> 's \<Rightarrow>
   (go_error + string \<times> string) \<times> auth_service \<times> 's" where
  "as_Login R E username password = (\<lambda>(as, s).
     if length username = 0 then (Inl err_username, as, s)
     else if length password = 0 then (Inl err_password, as, s)
     else case FindByUsername R username s of
       Inl e \<Rightarrow> (Inl (Wrap ''failed to find user'' e), as, s)
     | Inr None \<Rightarrow> (Inl err_credentials, as, s)
     | Inr (Some u) \<Rightarrow>
         (case CompareHashAndPassword E (PasswordHash u) password of
            Some e \<Rightarrow> (Inl (Wrap ''failed to verify password'' e), as, s)
          | None \<Rightarrow>
              (case SignedString E (access_claims E username (user_ID u)) (secret as) of
                 Inl e \<Rightarrow> (Inl (Wrap ''failed to create token'' e), as, s)
               | Inr accessToken \<Rightarrow>
                   (case as_IssueRefreshToken E username as of
                      (Inl e, as) \<Rightarrow> (Inl (Wrap ''failed to issue refresh token'' e), as, s)
                    | (Inr refreshToken, as) \<Rightarrow> (Inr (accessToken, refreshToken), as, s)))))"

definition as_Validate :: "auth_env \<Rightarrow> string \<Rightarrow> auth_service \<Rightarrow> go_error + string \<times> string" where
  "as_Validate E tokenString as =
     (if length tokenString = 0 then Inl err_token
      else case jwt_Parse E tokenString (key_func (secret as)) of
        Inl e \<Rightarrow> Inl (Wrap ''failed to parse token'' e)
      | Inr token \<Rightarrow>
          (case MapClaims token of
             None \<Rightarrow> Inl (Err ''invalid token claims'')
           | Some cl \<Rightarrow>
               if \<not> Valid token then Inl (Err ''invalid token claims'')
               else case fmlookup cl ''sub'' of
                 Some (StrClaim username) \<Rightarrow>
                   (case fmlookup cl ''uid'' of
                      Some (StrClaim userID) \<Rightarrow> Inr (username, userID)
                    | _ \<Rightarrow> Inl (Err ''invalid token user id''))
               | _ \<Rightarrow> Inl (Err ''invalid token subject'')))"

definition as_Refresh ::
  "'s user_repo \<Rightarrow> auth_env \<Rightarrow> string \<Rightarrow> auth_service \<times> 's \<Rightarrow>
   (go_error + string \<times> string) \<times> auth_service \<times> 's" where
  "as_Refresh R E refreshToken = (\<lambda>(as, s).
     if length refreshToken = 0 then (Inl err_token, as, s)
     else case fmlookup (refreshTokens as) refreshToken of
       None \<Rightarrow> (Inl err_refresh, as, s)
     | Some username \<Rightarrow>
         (let as = as\<lparr>refreshTokens := fmdrop refreshToken (refreshTokens as)\<rparr> in
          case FindByUsername R username s of
            Inl e \<Rightarrow> (Inl err_refresh, as, s)
          | Inr None \<Rightarrow> (Inl err_refresh, as, s)
          | Inr (Some u) \<Rightarrow>
              (case SignedString E (access_claims E username (user_ID u)) (secret as) of
                 Inl e \<Rightarrow> (Inl (Wrap ''failed to create access token'' e), as, s)
               | Inr accessToken \<Rightarrow>
                   (case rand_Read E of
                      Inl e \<Rightarrow> (Inl (Wrap ''failed to generate refresh token'' e), as, s)
                    | Inr bytes \<Rightarrow>
                        (let newRefreshToken = hex_encode bytes in
                         (Inr (accessToken, newRefreshToken),
                          as\<lparr>refreshTokens := fmupd newRefreshToken username (refreshTokens as)\<rparr>, s))))))"

section \<open>InMemoryAuthService\<close>

record inmem_auth =
  im_users :: "(string, user) fmap"
  im_refreshTokens :: "(string, string) fmap"
  im_secret :: string

definition NewInMemoryAuthService :: "string \<Rightarrow> inmem_auth" where
  "NewInMemoryAuthService sec = \<lparr>im_users = fmempty, im_refreshTokens = fmempty, im_secret = sec\<rparr>"

definition im_Register :: "auth_env \<Rightarrow> string \<Rightarrow> string \<Rightarrow> inmem_auth \<Rightarrow> go_error option \<times> inmem_auth" where
  "im_Register E username password as =
     (if length username = 0 then (Some err_username, as)
      else if length password = 0 then (Some err_password, as)
      else case ValidateUsername username of
        Some err \<Rightarrow> (Some err, as)
      | None \<Rightarrow>
          (if fmlookup (im_users as) username \<noteq> None then (Some (Err ''that user already exist''), as)
           else case GenerateFromPassword E password of
             Inl e \<Rightarrow> (Some (Wrap ''failed to generate password hash'' e), as)
           | Inr hash \<Rightarrow>
               (None, as\<lparr>im_users := fmupd username (NewUser (uuid_New E) (time_Now E) username hash) (im_users as)\<rparr>)))"

definition im_IssueRefreshToken :: "auth_env \<Rightarrow> string \<Rightarrow> inmem_auth \<Rightarrow> (go_error + string) \<times> inmem_auth" where
  "im_IssueRefreshToken E username as =
     (if length username = 0 then (Inl err_username, as)
      else case rand_Read E of
        Inl e \<Rightarrow> (Inl (Wrap ''failed to generate refresh token'' e), as)
      | Inr bytes \<Rightarrow>
          (let refreshToken = hex_encode bytes in
           (Inr refreshToken, as\<lparr>im_refreshTokens := fmupd refreshToken username (im_refreshTokens as)\<rparr>)))"

definition im_Login ::
  "auth_env \<Rightarrow> string \<Rightarrow> string \<Rightarrow> inmem_auth \<Rightarrow> (go_error + string \<times> string) \<times> inmem_auth" where
  "im_Login E username password as =
     (if length username = 0 then (Inl err_username, as)
      else if length password = 0 then (Inl err_password, as)
      else case fmlookup (im_users as) username of
        None \<Rightarrow> (Inl err_credentials, as)
      | Some u \<Rightarrow>
          (case CompareHashAndPassword E (PasswordHash u) password of
             Some e \<Rightarrow> (Inl (Wrap ''failed to verify password'' e), as)
           | None \<Rightarrow>
               (case SignedString E (access_claims E username (user_ID u)) (im_secret as) of
                  Inl e \<Rightarrow> (Inl (Wrap ''failed to create token'' e), as)
                | Inr accessToken \<Rightarrow>
                    (case im_IssueRefreshToken E username as of
                       (Inl e, as) \<Rightarrow> (Inl (Wrap ''failed to issue refresh token'' e), as)
                     | (Inr refreshToken, as) \<Rightarrow> (Inr (accessToken, refreshToken), as)))))"

definition im_Validate :: "auth_env \<Rightarrow> string \<Rightarrow> inmem_auth \<Rightarrow> go_error + string \<times> string" where
  "im_Validate E tokenString as =
     (if length tokenString = 0 then Inl err_token
      else case jwt_Parse E tokenString (key_func (im_secret as)) of
        Inl e \<Rightarrow> Inl (Wrap ''failed to parse token'' e)
      | Inr token \<Rightarrow>
          (case MapClaims token of
             None \<Rightarrow> Inl (Err ''invalid token claims'')
           | Some cl \<Rightarrow>
               if \<not> Valid token then Inl (Err ''invalid token claims'')
               else case fmlookup cl ''sub'' of
                 Some (StrClaim username) \<Rightarrow>
                   (case fmlookup cl ''uid'' of
                      Some (StrClaim userID) \<Rightarrow> Inr (username, userID)
                    | _ \<Rightarrow> Inl (Err ''invalid token user id''))
               | _ \<Rightarrow> Inl (Err ''invalid token subject'')))"

definition im_Refresh :: "auth_env \<Rightarrow> string \<Rightarrow> inmem_auth \<Rightarrow> (go_error + string \<times> string) \<times> inmem_auth" where
  "im_Refresh E refreshToken as =
     (if length refreshToken = 0 then (Inl err_token, as)
      else case fmlookup (im_refreshTokens as) refreshToken of
        None \<Rightarrow> (Inl err_refresh, as)
      | Some username \<Rightarrow>
          (let as = as\<lparr>im_refreshTokens := fmdrop refreshToken (im_refreshTokens as)\<rparr> in
           case fmlookup (im_users as) username of
             None \<Rightarrow> (Inl (Err ''user not found''), as)
           | Some u \<Rightarrow>
               (case SignedString E (access_claims E username (user_ID u)) (im_secret as) of
                  Inl e \<Rightarrow> (Inl (Wrap ''failed to create access token'' e), as)
                | Inr accessToken \<Rightarrow>
                    (case rand_Read E of
                       Inl e \<Rightarrow> (Inl (Wrap ''failed to generate refresh token'' e), as)
                     | Inr bytes \<Rightarrow>
                         (let newRefreshToken = hex_encode bytes in
                          (Inr (accessToken, newRefreshToken),
                           as\<lparr>im_refreshTokens := fmupd newRefreshToken username (im_refreshTokens as)\<rparr>))))))"

section \<open>The AuthService interface\<close>

text \<open>
  The interface as a record of methods over a state, and histories of calls. A call carries its
  environment; for the repository-backed service also the repository as it behaves during the call.
\<close>

record ('c, 'st) auth_iface =
  Register :: "'c \<Rightarrow> string \<Rightarrow> string \<Rightarrow> 'st \<Rightarrow> go_error option \<times> 'st"
  Login :: "'c \<Rightarrow> string \<Rightarrow> string \<Rightarrow> 'st \<Rightarrow> (go_error + string \<times> string) \<times> 'st"
  Validate :: "'c \<Rightarrow> string \<Rightarrow> 'st \<Rightarrow> go_error + string \<times> string"
  Refresh :: "'c \<Rightarrow> string \<Rightarrow> 'st \<Rightarrow> (go_error + string \<times> string) \<times> 'st"
  IssueRefreshToken :: "'c \<Rightarrow> string \<Rightarrow> 'st \<Rightarrow> (go_error + string) \<times> 'st"

definition authService :: "('s user_repo \<times> auth_env, auth_service \<times> 's) auth_iface" where
  "authService =
     \<lparr>Register = (\<lambda>(R, E). as_Register R E),
      Login = (\<lambda>(R, E). as_Login R E),
      Validate = (\<lambda>(R, E) t (as, s). as_Validate E t as),
      Refresh = (\<lambda>(R, E). as_Refresh R E),
      IssueRefreshToken = (\<lambda>(R, E) u (as, s). case as_IssueRefreshToken E u as of (r, as) \<Rightarrow> (r, as, s))\<rparr>"

definition inMemoryAuthService :: "(auth_env, inmem_auth) auth_iface" where
  "inMemoryAuthService =
     \<lparr>Register = im_Register, Login = im_Login, Validate = im_Validate, Refresh = im_Refresh,
      IssueRefreshToken = im_IssueRefreshToken\<rparr>"

datatype 'c auth_op =
    ORegister 'c string string
  | OLogin 'c string string
  | ORefresh 'c string
  | OIssue 'c string

text \<open>What a history did to the refresh tokens: issued, rotated, or presented and refused.\<close>

datatype token_event = Issued string string | Rotated string string | Refused string

fun auth_step :: "('c, 'st) auth_iface \<Rightarrow> 'c auth_op \<Rightarrow> 'st \<Rightarrow> token_event list \<times> 'st" where
  "auth_step A (ORegister c u p) st = ([], snd (Register A c u p st))"
| "auth_step A (OLogin c u p) st =
     (case Login A c u p st of (Inl e, st) \<Rightarrow> ([], st) | (Inr (a, t), st) \<Rightarrow> ([Issued t u], st))"
| "auth_step A (ORefresh c t) st =
     (case Refresh A c t st of (Inl e, st) \<Rightarrow> ([Refused t], st) | (Inr (a, t'), st) \<Rightarrow> ([Rotated t t'], st))"
| "auth_step A (OIssue c u) st =
     (case IssueRefreshToken A c u st of (Inl e, st) \<Rightarrow> ([], st) | (Inr t, st) \<Rightarrow> ([Issued t u], st))"

fun auth_run :: "('c, 'st) auth_iface \<Rightarrow> 'c auth_op list \<Rightarrow> 'st \<Rightarrow> token_event list \<times> 'st" where
  "auth_run A [] st = ([], st)"
| "auth_run A (op # ops) st =
     (case auth_step A op st of (evs, st) \<Rightarrow> case auth_run A ops st of (evs', st) \<Rightarrow> (evs @ evs', st))"

text \<open>The specification: who owns which token, and which events are allowed.\<close>

fun owners :: "token_event \<Rightarrow> (string \<rightharpoonup> string) \<Rightarrow> (string \<rightharpoonup> string)" where
  "owners (Issued t u) m = m(t \<mapsto> u)"
| "owners (Rotated t t') m = (m(t := None))(t' := m t)"
| "owners (Refused t) m = (if t = '''' then m else m(t := None))"

fun legal_trace :: "token_event list \<Rightarrow> (string \<rightharpoonup> string) \<Rightarrow> bool" where
  "legal_trace [] m = True"
| "legal_trace (e # es) m = ((case e of Rotated t t' \<Rightarrow> m t \<noteq> None | _ \<Rightarrow> True) \<and> legal_trace es (owners e m))"

fun issued :: "token_event list \<Rightarrow> string list" where
  "issued [] = []"
| "issued (Issued t u # es) = t # issued es"
| "issued (Rotated t t' # es) = t' # issued es"
| "issued (Refused t # es) = issued es"

fun accepted :: "token_event list \<Rightarrow> string list" where
  "accepted [] = []"
| "accepted (Rotated t t' # es) = t # accepted es"
| "accepted (Issued t u # es) = accepted es"
| "accepted (Refused t # es) = accepted es"

lemma legal_trace_append: "legal_trace (es @ es') m \<longleftrightarrow> legal_trace es m \<and> legal_trace es' (fold owners es m)"
  by (induction es arbitrary: m) auto

lemma issued_append: "issued (es @ es') = issued es @ issued es'"
  by (induction es rule: issued.induct) auto

lemma accepted_once:
  "legal_trace es m \<Longrightarrow> distinct (issued es) \<Longrightarrow> set (issued es) \<inter> dom m = {} \<Longrightarrow>
   distinct (accepted es) \<and> set (accepted es) \<subseteq> dom m \<union> set (issued es)"
proof (induction es m rule: legal_trace.induct)
  case (2 e es m)
  show ?case
  proof (cases e)
    case (Issued t u)
    have "set (issued es) \<inter> dom (owners e m) = {}" and dom: "dom (owners e m) = insert t (dom m)"
      using 2(3,4) by (auto simp: Issued)
    moreover have "legal_trace es (owners e m)" "distinct (issued es)" using 2(2,3) Issued by auto
    ultimately have "distinct (accepted es) \<and> set (accepted es) \<subseteq> insert t (dom m) \<union> set (issued es)"
      using 2(1) by simp
    then show ?thesis by (auto simp: Issued)
  next
    case (Rotated t t')
    with 2(2-) have t: "m t \<noteq> None" "t \<noteq> t'" "t \<notin> set (issued es)" "t' \<notin> set (issued es)" by auto
    have dom: "dom (owners e m) = insert t' (dom m - {t})" using t by (auto simp: Rotated)
    then have "set (issued es) \<inter> dom (owners e m) = {}" using 2(4) Rotated t(4) by auto
    moreover have "legal_trace es (owners e m)" "distinct (issued es)" using 2(2,3) Rotated by auto
    ultimately have IH: "distinct (accepted es)" "set (accepted es) \<subseteq> insert t' (dom m - {t}) \<union> set (issued es)"
      using 2(1) dom by auto
    then have "t \<notin> set (accepted es)" using t by auto
    with IH t(1) show ?thesis by (auto simp: Rotated)
  next
    case (Refused t)
    have "set (issued es) \<inter> dom (owners e m) = {}" and dom: "dom (owners e m) \<subseteq> dom m"
      using 2(4) by (auto simp: Refused split: if_splits)
    moreover have "legal_trace es (owners e m)" "distinct (issued es)" using 2(2,3) Refused by auto
    ultimately have "distinct (accepted es) \<and> set (accepted es) \<subseteq> dom (owners e m) \<union> set (issued es)"
      using 2(1) by simp
    with dom have "distinct (accepted es) \<and> set (accepted es) \<subseteq> dom m \<union> set (issued es)" by blast
    then show ?thesis by (simp add: Refused)
  qed
qed simp

locale auth_service_contract =
  fixes A :: "('c, 'st) auth_iface" and toks :: "'st \<Rightarrow> (string, string) fmap" and env :: "'c \<Rightarrow> auth_env"
  assumes register_toks: "Register A c u p st = (res, st') \<Longrightarrow> toks st' = toks st"
    and login_failed: "Login A c u p st = (Inl e, st') \<Longrightarrow> toks st' = toks st"
    and login_ok: "Login A c u p st = (Inr (a, t), st') \<Longrightarrow>
      (\<exists>bs. rand_Read (env c) = Inr bs \<and> t = hex_encode bs) \<and> toks st' = fmupd t u (toks st)"
    and issue_failed: "IssueRefreshToken A c u st = (Inl e, st') \<Longrightarrow> toks st' = toks st"
    and issue_ok: "IssueRefreshToken A c u st = (Inr t, st') \<Longrightarrow>
      (\<exists>bs. rand_Read (env c) = Inr bs \<and> t = hex_encode bs) \<and> toks st' = fmupd t u (toks st)"
    and refresh_failed: "Refresh A c t st = (Inl e, st') \<Longrightarrow> toks st' = (if t = '''' then toks st else fmdrop t (toks st))"
    and refresh_ok: "Refresh A c t st = (Inr (a, t'), st') \<Longrightarrow>
      (\<exists>bs. rand_Read (env c) = Inr bs \<and> t' = hex_encode bs) \<and>
      (\<exists>u. fmlookup (toks st) t = Some u \<and> toks st' = fmupd t' u (fmdrop t (toks st)))"
begin

lemma register_toks_snd [simp]: "toks (snd (Register A c u p st)) = toks st"
  by (rule register_toks) (rule surjective_pairing)

lemma step_trace:
  "auth_step A op st = (evs, st') \<Longrightarrow>
   legal_trace evs (fmlookup (toks st)) \<and> fmlookup (toks st') = fold owners evs (fmlookup (toks st))"
  by (cases op)
    (auto dest: register_toks login_failed login_ok issue_failed issue_ok refresh_failed refresh_ok
      split: prod.splits sum.splits simp: fun_eq_iff)

lemma run_trace:
  "auth_run A ops st = (evs, st') \<Longrightarrow>
   legal_trace evs (fmlookup (toks st)) \<and> fmlookup (toks st') = fold owners evs (fmlookup (toks st))"
proof (induction ops arbitrary: st evs)
  case (Cons op ops)
  obtain evs1 st1 where s: "auth_step A op st = (evs1, st1)" by fastforce
  obtain evs2 where r: "auth_run A ops st1 = (evs2, st')" "evs = evs1 @ evs2"
    using Cons.prems s by (auto split: prod.splits)
  from step_trace [OF s] Cons.IH [OF r(1)] r(2) show ?case by (simp add: legal_trace_append)
qed simp

lemma single_use:
  assumes "auth_run A ops st = (evs, st')" and "toks st = fmempty" and "distinct (issued evs)"
  shows "distinct (accepted evs)" and "set (accepted evs) \<subseteq> set (issued evs)"
    and "fmlookup (toks st') = fold owners evs (\<lambda>_. None)"
proof -
  have m: "fmlookup (toks st) = (\<lambda>_. None)" using assms(2) by auto
  from run_trace [OF assms(1)] have "legal_trace evs (\<lambda>_. None)" "fmlookup (toks st') = fold owners evs (\<lambda>_. None)"
    unfolding m by auto
  with accepted_once [of evs "\<lambda>_. None"] assms(3)
  show "distinct (accepted evs)" "set (accepted evs) \<subseteq> set (issued evs)"
    "fmlookup (toks st') = fold owners evs (\<lambda>_. None)" by auto
qed

text \<open>Every refresh token in the store is the hexadecimal form of 32 bytes.\<close>

lemma step_tokens_hex:
  assumes "auth_step A op st = (evs, st')"
  shows "t |\<in>| fmdom (toks st') \<Longrightarrow> t |\<in>| fmdom (toks st) \<or> (\<exists>c bs. rand_Read (env c) = Inr bs \<and> t = hex_encode bs)"
  using assms by (cases op)
    (auto dest: register_toks login_failed login_ok issue_failed issue_ok refresh_failed refresh_ok
      split: prod.splits sum.splits if_splits)

end

lemma refresh_drop: "fmlookup m t = None \<Longrightarrow> fmdrop t m = m"
  by (rule fmap_ext) auto

lemmas auth_service_defs = authService_def as_Register_def as_Login_def as_IssueRefreshToken_def as_Refresh_def
lemmas inmem_auth_defs = inMemoryAuthService_def im_Register_def im_Login_def im_IssueRefreshToken_def im_Refresh_def

interpretation repo_auth: auth_service_contract authService "\<lambda>st. refreshTokens (fst st)" snd
  by unfold_locales
    (auto simp: auth_service_defs Let_def refresh_drop split: prod.splits sum.splits option.splits if_splits)

interpretation mem_auth: auth_service_contract inMemoryAuthService im_refreshTokens "\<lambda>E. E"
  by unfold_locales
    (auto simp: inmem_auth_defs Let_def refresh_drop split: prod.splits sum.splits option.splits if_splits)

section \<open>Lemmas\<close>

definition hex_tokens :: "(string, string) fmap \<Rightarrow> bool" where
  "hex_tokens m \<longleftrightarrow> (\<forall>t. t |\<in>| fmdom m \<longrightarrow> is_hex t)"

context auth_service_contract
begin

lemma run_tokens_hex:
  "auth_run A ops st = (evs, st') \<Longrightarrow> hex_tokens (toks st) \<Longrightarrow> hex_tokens (toks st')"
proof (induction ops arbitrary: st evs)
  case (Cons op ops)
  obtain evs1 st1 where s: "auth_step A op st = (evs1, st1)" by fastforce
  obtain evs2 where r: "auth_run A ops st1 = (evs2, st')"
    using Cons.prems(1) s by (auto split: prod.splits)
  have "hex_tokens (toks st1)"
    using step_tokens_hex [OF s] Cons.prems(2) hex_encode_is_hex unfolding hex_tokens_def by metis
  with Cons.IH [OF r] show ?case by blast
qed simp

end

text \<open>What the JWT library documents, for tokens it signed itself and for every token it accepts.\<close>

definition hs256 :: "claims \<Rightarrow> bool \<Rightarrow> jwt_token" where
  "hs256 cl ok = \<lparr>is_HMAC = True, alg = ''HS256'', MapClaims = Some cl, Valid = ok\<rparr>"

definition jwt_law ::
  "(claims \<Rightarrow> string \<Rightarrow> go_error + string) \<Rightarrow>
   (int \<Rightarrow> string \<Rightarrow> (jwt_token \<Rightarrow> go_error + string) \<Rightarrow> go_error + jwt_token) \<Rightarrow> bool" where
  "jwt_law sign parse \<longleftrightarrow>
     (\<forall>cl k t now kf exp. sign cl k = Inr t \<longrightarrow> t \<noteq> '''' \<and>
        (kf (hs256 cl False) = Inr k \<and> fmlookup cl ''exp'' = Some (NumClaim exp) \<and> now \<le> exp \<longrightarrow>
           parse now t kf = Inr (hs256 cl True))) \<and>
     (\<forall>now t kf tok. parse now t kf = Inr tok \<longrightarrow> (\<exists>k v. kf (tok\<lparr>Valid := v\<rparr>) = Inr k))"

text \<open>A JWT implementation that knows one token, for the witnesses.\<close>

definition one_token_sign :: "claims \<Rightarrow> string \<Rightarrow> claims \<Rightarrow> string \<Rightarrow> go_error + string" where
  "one_token_sign cl0 k0 cl k = (if cl = cl0 \<and> k = k0 then Inr ''h.c.s'' else Inl (Err ''no key''))"

definition one_token_parse ::
  "claims \<Rightarrow> string \<Rightarrow> int \<Rightarrow> string \<Rightarrow> (jwt_token \<Rightarrow> go_error + string) \<Rightarrow> go_error + jwt_token" where
  "one_token_parse cl0 k0 now t kf =
     (if t = ''h.c.s'' \<and> kf (hs256 cl0 False) = Inr k0 \<and>
         (case fmlookup cl0 ''exp'' of Some (NumClaim x) \<Rightarrow> now \<le> x | _ \<Rightarrow> False)
      then Inr (hs256 cl0 True) else Inl (Err ''signature is invalid''))"

lemma one_token_law: "jwt_law (one_token_sign cl0 k0) (one_token_parse cl0 k0)"
proof -
  have "hs256 cl0 False = (hs256 cl0 True)\<lparr>Valid := False\<rparr>" by (simp add: hs256_def)
  then show ?thesis
    by (auto simp: jwt_law_def one_token_sign_def one_token_parse_def split: if_splits)
qed

definition test_env :: auth_env where
  "test_env = \<lparr>GenerateFromPassword = (\<lambda>p. Inr (''bcrypt:'' @ p)),
     CompareHashAndPassword = (\<lambda>h p. if h = ''bcrypt:'' @ p then None else Some (Err ''mismatch'')),
     SignedString = (\<lambda>cl k. Inr ''h.c.s''), jwt_Parse = (\<lambda>t kf. Inl (Err ''signature is invalid'')),
     rand_Read = Inr (replicate 32 (CHR ''x'')), Now_Unix = 0, uuid_New = ''u1'', time_Now = Time 0\<rparr>"

lemma as_Login_cases:
  assumes "as_Login R E u p (as, s) = (Inr (a, r), st')"
  obtains usr bs where "u \<noteq> ''''" "p \<noteq> ''''" "FindByUsername R u s = Inr (Some usr)"
    "CompareHashAndPassword E (PasswordHash usr) p = None"
    "SignedString E (access_claims E u (user_ID usr)) (secret as) = Inr a"
    "rand_Read E = Inr bs" "r = hex_encode bs"
    "st' = (as\<lparr>refreshTokens := fmupd r u (refreshTokens as)\<rparr>, s)"
  using assms
  by (auto simp: as_Login_def as_IssueRefreshToken_def Let_def split: if_splits sum.splits option.splits prod.splits)

lemma as_Refresh_cases:
  assumes "as_Refresh R E t (as, s) = (Inr (a, r), as', s')"
  obtains u usr where "fmlookup (refreshTokens as) t = Some u" "FindByUsername R u s = Inr (Some usr)"
    "SignedString E (access_claims E u (user_ID usr)) (secret as) = Inr a" "secret as' = secret as" "s' = s"
proof -
  have t: "t \<noteq> []" using assms by (auto simp: as_Refresh_def)
  obtain u where u: "fmlookup (refreshTokens as) t = Some u"
    using assms t by (cases "fmlookup (refreshTokens as) t") (simp_all add: as_Refresh_def)
  obtain o_usr where "FindByUsername R u s = Inr o_usr"
    using assms t u by (cases "FindByUsername R u s") (simp_all add: as_Refresh_def Let_def)
  then obtain usr where usr: "FindByUsername R u s = Inr (Some usr)"
    using assms t u by (cases o_usr) (simp_all add: as_Refresh_def Let_def)
  obtain a' where a: "SignedString E (access_claims E u (user_ID usr)) (secret as) = Inr a'"
    using assms t u usr
    by (cases "SignedString E (access_claims E u (user_ID usr)) (secret as)") (simp_all add: as_Refresh_def Let_def)
  obtain bs where bs: "rand_Read E = Inr bs"
    using assms t u usr a by (cases "rand_Read E") (simp_all add: as_Refresh_def Let_def)
  show thesis
    using assms t u usr a bs by (intro that [OF u usr]) (auto simp: as_Refresh_def Let_def)
qed

lemma validate_access:
  assumes "jwt_law (SignedString E) parse" and "SignedString E (access_claims E u i) (secret as) = Inr a"
    and "jwt_Parse E' = parse (Now_Unix E')" and "Now_Unix E' \<le> Now_Unix E + 24 * 3600"
  shows "as_Validate E' a as = Inr (u, i)"
proof -
  have "a \<noteq> ''''" using assms(1,2) by (auto simp: jwt_law_def)
  moreover have "jwt_Parse E' a (key_func (secret as)) = Inr (hs256 (access_claims E u i) True)"
    using assms by (auto simp: jwt_law_def key_func_def hs256_def access_claims_def)
  ultimately show ?thesis
    by (simp add: as_Validate_def hs256_def access_claims_def)
qed

section \<open>The two implementations\<close>

text \<open>Answers that agree up to the error.\<close>

fun agree :: "go_error + 'r \<Rightarrow> go_error + 'r \<Rightarrow> bool" where
  "agree (Inr x) (Inr y) \<longleftrightarrow> x = y"
| "agree (Inl e) (Inl e') \<longleftrightarrow> True"
| "agree _ _ \<longleftrightarrow> False"

text \<open>The in-memory service keeps the creation time as it is, the column in its own resolution.\<close>

definition same_account :: "user \<Rightarrow> user \<Rightarrow> bool" where
  "same_account a b \<longleftrightarrow> user_ID a = user_ID b \<and> Username a = Username b \<and> PasswordHash a = PasswordHash b"

definition auth_sim :: "auth_service \<times> db_state \<Rightarrow> inmem_auth \<Rightarrow> bool" where
  "auth_sim st im \<longleftrightarrow>
     refreshTokens (fst st) = im_refreshTokens im \<and> secret (fst st) = im_secret im \<and>
     db_inv (snd st) \<and> (\<forall>usr \<in> set (t_users (snd st)). user_DeletedAt usr = None) \<and>
     (\<forall>n. rel_option same_account (active_user (snd st) n) (fmlookup (im_users im) n))"

abbreviation pg_call :: "uuid_conv \<Rightarrow> ts_conv \<Rightarrow> auth_env \<Rightarrow> db_state user_repo \<times> auth_env" where
  "pg_call uuid ts E \<equiv> (pg_user_repo uuid ts Runs, E)"

lemma pg_find: "FindByUsername (pg_user_repo uuid ts Runs) u db = Inr (active_user db u)"
  by (simp add: pg_user_repo_def UserRepo_FindByUsername_def query_row_def find_filter active_user_def)

lemma sim_user:
  assumes "auth_sim (as, db) im"
  obtains (none) "active_user db n = None" "fmlookup (im_users im) n = None"
    | (account) a b where "active_user db n = Some a" "fmlookup (im_users im) n = Some b" "same_account a b"
proof -
  have "rel_option same_account (active_user db n) (fmlookup (im_users im) n)" using assms by (simp add: auth_sim_def)
  then show thesis by (cases rule: option.rel_cases) (use that in auto)
qed

lemma sim_login:
  assumes "auth_sim (as, db) im"
  shows "agree (fst (as_Login (pg_user_repo uuid ts Runs) E u p (as, db))) (fst (im_Login E u p im)) \<and>
    auth_sim (snd (as_Login (pg_user_repo uuid ts Runs) E u p (as, db))) (snd (im_Login E u p im)) \<and>
    snd (snd (as_Login (pg_user_repo uuid ts Runs) E u p (as, db))) = db"
  using assms
  by (cases rule: sim_user [OF assms, of u])
    (auto simp: as_Login_def im_Login_def as_IssueRefreshToken_def im_IssueRefreshToken_def pg_find auth_sim_def same_account_def
      Let_def split: option.splits sum.splits)

lemma sim_issue:
  assumes "auth_sim (as, db) im"
  shows "agree (fst (as_IssueRefreshToken E u as)) (fst (im_IssueRefreshToken E u im)) \<and>
    auth_sim (snd (as_IssueRefreshToken E u as), db) (snd (im_IssueRefreshToken E u im))"
  using assms
  by (auto simp: as_IssueRefreshToken_def im_IssueRefreshToken_def auth_sim_def Let_def split: sum.splits)

lemma sim_refresh:
  assumes "auth_sim (as, db) im"
  shows "agree (fst (as_Refresh (pg_user_repo uuid ts Runs) E t (as, db))) (fst (im_Refresh E t im)) \<and>
    auth_sim (snd (as_Refresh (pg_user_repo uuid ts Runs) E t (as, db))) (snd (im_Refresh E t im)) \<and>
    snd (snd (as_Refresh (pg_user_repo uuid ts Runs) E t (as, db))) = db"
proof (cases "fmlookup (im_refreshTokens im) t")
  case (Some n)
  show ?thesis
    using Some assms
    by (cases rule: sim_user [OF assms, of n])
      (auto simp: as_Refresh_def im_Refresh_def pg_find auth_sim_def same_account_def Let_def split: option.splits sum.splits)
qed (use assms in \<open>auto simp: as_Refresh_def im_Refresh_def auth_sim_def\<close>)

lemma sim_validate:
  "auth_sim (as, db) im \<Longrightarrow> as_Validate E t as = im_Validate E t im"
  by (simp add: as_Validate_def im_Validate_def auth_sim_def)

lemma active_user_None:
  assumes "\<forall>usr \<in> set (t_users db). user_DeletedAt usr = None" and "active_user db n = None"
  shows "\<forall>usr \<in> set (t_users db). Username usr \<noteq> n"
  using assms by (auto simp: active_user_def find_None_iff)

lemma pg_create:
  assumes "active_user db (Username usr) = None" and "\<forall>v \<in> set (t_users db). user_DeletedAt v = None"
    and "uuid (user_ID usr) = Some (user_ID usr)" and "user_ID usr \<notin> user_ID ` set (t_users db)"
    and "user_DeletedAt usr = None"
  shows "CreateUser (pg_user_repo uuid ts Runs) usr db = (None, db\<lparr>t_users := t_users db @ [kept_user ts usr]\<rparr>)"
proof -
  have "\<forall>v \<in> set (t_users db). user_ID v \<noteq> user_ID usr \<and> Username v \<noteq> Username usr"
    using assms(4) active_user_None [OF assms(2,1)] by (metis image_eqI)
  then show ?thesis
    using assms(3,5) by (auto simp: pg_user_repo_def UserRepo_Create_def exec_sql_Runs kept_user_def)
qed

lemma sim_register:
  assumes sim: "auth_sim (as, db) im" and id: "uuid (uuid_New E) = Some (uuid_New E)"
    and fresh: "uuid_New E \<notin> user_ID ` set (t_users db)"
  shows "(fst (as_Register (pg_user_repo uuid ts Runs) E u p (as, db)) = None \<longleftrightarrow> fst (im_Register E u p im) = None) \<and>
    auth_sim (snd (as_Register (pg_user_repo uuid ts Runs) E u p (as, db))) (snd (im_Register E u p im)) \<and>
    user_ID ` set (t_users (snd (snd (as_Register (pg_user_repo uuid ts Runs) E u p (as, db))))) \<subseteq>
      insert (uuid_New E) (user_ID ` set (t_users db))"
proof (cases "as_Register_check (pg_user_repo uuid ts Runs) u p db")
  case (Some e)
  then have "\<exists>e'. im_Register E u p im = (Some e', im)"
    by (cases rule: sim_user [OF sim, of u]) (auto simp: as_Register_check_def im_Register_def pg_find split: option.splits if_splits)
  with Some sim show ?thesis by (auto simp: as_Register_def)
next
  case None
  then have ok: "u \<noteq> ''''" "p \<noteq> ''''" "ValidateUsername u = None" "active_user db u = None"
    by (auto simp: as_Register_check_def pg_find split: option.splits if_splits)
  have free: "fmlookup (im_users im) u = None" using ok(4) by (cases rule: sim_user [OF sim, of u]) simp_all
  show ?thesis
  proof (cases "GenerateFromPassword E p")
    case (Inl e)
    with None ok free sim show ?thesis
      by (auto simp: as_Register_def as_Register_create_def im_Register_def auth_sim_def)
  next
    case (Inr h)
    let ?usr = "NewUser (uuid_New E) (time_Now E) u h"
    let ?db = "db\<lparr>t_users := t_users db @ [kept_user ts ?usr]\<rparr>"
    have undel: "\<forall>v \<in> set (t_users db). user_DeletedAt v = None" and inv: "db_inv db"
      using sim by (auto simp: auth_sim_def)
    have c: "CreateUser (pg_user_repo uuid ts Runs) ?usr db = (None, ?db)"
      using ok(4) undel id fresh by (intro pg_create) (simp_all add: NewUser_def)
    have can: "canonical_user uuid ?usr" using id by (simp add: canonical_user_def NewUser_def)
    have "db_inv ?db" "active_user ?db = (active_user db)(u \<mapsto> kept_user ts ?usr)"
      using pg_users.create_ok [OF inv can c] by (auto simp: NewUser_def)
    with None ok free sim Inr c show ?thesis
      by (auto simp: as_Register_def as_Register_create_def im_Register_def auth_sim_def NewUser_def kept_user_def same_account_def)
  qed
qed

fun op_env :: "auth_env auth_op \<Rightarrow> auth_env" where
  "op_env (ORegister E u p) = E"
| "op_env (OLogin E u p) = E"
| "op_env (ORefresh E t) = E"
| "op_env (OIssue E u) = E"

lemma sim_step:
  assumes "auth_sim st im" and "uuid (uuid_New (op_env op)) = Some (uuid_New (op_env op))"
    and "uuid_New (op_env op) \<notin> user_ID ` set (t_users (snd st))"
    and "auth_step authService (map_auth_op (pg_call uuid ts) op) st = (evs, st')"
    and "auth_step inMemoryAuthService op im = (evs', im')"
  shows "evs = evs' \<and> auth_sim st' im' \<and>
    user_ID ` set (t_users (snd st')) \<subseteq> insert (uuid_New (op_env op)) (user_ID ` set (t_users (snd st)))"
proof -
  obtain as db where st: "st = (as, db)" by fastforce
  show ?thesis
  proof (cases op)
    case (ORegister E u p)
    with assms sim_register [of as db im uuid E ts u p] show ?thesis
      by (auto simp: st authService_def inMemoryAuthService_def)
  next
    case (OLogin E u p)
    with assms sim_login [of as db im uuid ts E u p] show ?thesis
      by (auto simp: st authService_def inMemoryAuthService_def split: prod.splits sum.splits)
  next
    case (ORefresh E t)
    with assms sim_refresh [of as db im uuid ts E t] show ?thesis
      by (auto simp: st authService_def inMemoryAuthService_def split: prod.splits sum.splits)
  next
    case (OIssue E u)
    with assms sim_issue [of as db im E u] show ?thesis
      by (auto simp: st authService_def inMemoryAuthService_def split: prod.splits sum.splits)
  qed
qed

lemma disjoint_insert_sub: "I \<inter> A = {} \<Longrightarrow> x \<notin> I \<Longrightarrow> B \<subseteq> insert x A \<Longrightarrow> I \<inter> B = {}"
  by blast

lemma sim_run:
  assumes "auth_sim st im" and "list_all (\<lambda>op. uuid (uuid_New (op_env op)) = Some (uuid_New (op_env op))) ops"
    and "distinct (map (\<lambda>op. uuid_New (op_env op)) ops)"
    and "(\<lambda>op. uuid_New (op_env op)) ` set ops \<inter> user_ID ` set (t_users (snd st)) = {}"
    and "auth_run authService (map (map_auth_op (pg_call uuid ts)) ops) st = (evs, st')"
    and "auth_run inMemoryAuthService ops im = (evs', im')"
  shows "evs = evs' \<and> auth_sim st' im' \<and>
    user_ID ` set (t_users (snd st')) \<subseteq> (\<lambda>op. uuid_New (op_env op)) ` set ops \<union> user_ID ` set (t_users (snd st))"
  using assms
proof (induction ops arbitrary: st im evs evs')
  case (Cons op ops)
  obtain ev1 st1 where s: "auth_step authService (map_auth_op (pg_call uuid ts) op) st = (ev1, st1)" by (rule prod.exhaust)
  obtain ev1' im1 where s': "auth_step inMemoryAuthService op im = (ev1', im1)" by fastforce
  obtain ev2 where r: "auth_run authService (map (map_auth_op (pg_call uuid ts)) ops) st1 = (ev2, st')" "evs = ev1 @ ev2"
    using Cons.prems(5) s by (auto split: prod.splits)
  obtain ev2' where r': "auth_run inMemoryAuthService ops im1 = (ev2', im')" "evs' = ev1' @ ev2'"
    using Cons.prems(6) s' by (auto split: prod.splits)
  have op: "uuid (uuid_New (op_env op)) = Some (uuid_New (op_env op))"
      "uuid_New (op_env op) \<notin> user_ID ` set (t_users (snd st))"
    using Cons.prems(2,4) by auto
  note step = sim_step [OF Cons.prems(1) op s s']
  have "(\<lambda>op. uuid_New (op_env op)) ` set ops \<inter> user_ID ` set (t_users (snd st1)) = {}"
  proof (rule disjoint_insert_sub)
    show "(\<lambda>op. uuid_New (op_env op)) ` set ops \<inter> user_ID ` set (t_users (snd st)) = {}"
      using Cons.prems(4) by auto
    show "uuid_New (op_env op) \<notin> (\<lambda>op. uuid_New (op_env op)) ` set ops" using Cons.prems(3) by simp
    show "user_ID ` set (t_users (snd st1)) \<subseteq> insert (uuid_New (op_env op)) (user_ID ` set (t_users (snd st)))"
      using step by blast
  qed
  with Cons.IH [OF _ _ _ _ r(1) r'(1)] step Cons.prems(2,3)
  have "ev2 = ev2' \<and> auth_sim st' im' \<and>
      user_ID ` set (t_users (snd st')) \<subseteq> (\<lambda>op. uuid_New (op_env op)) ` set ops \<union> user_ID ` set (t_users (snd st1))" by simp
  with step r(2) r'(2) show ?case by (simp, blast)
qed simp

section \<open>Properties\<close>

text \<open>
  C17. A successful login over PostgreSQL is for an existing account whose password hash bcrypt
  accepts; it changes no table, issues a refresh token owned by that user, and until it expires a day
  later its access token validates to exactly that user's name and ID.
\<close>

theorem Login_sound:
  assumes "as_Login (pg_user_repo uuid ts q) E u p (as, db) = (Inr (a, r), as', db')" and "db_inv db"
    and "jwt_law (SignedString E) parse" and "jwt_Parse E' = parse (Now_Unix E')"
    and "Now_Unix E' \<le> Now_Unix E + 24 * 3600"
  shows "\<exists>usr. active_user db u = Some usr \<and> CompareHashAndPassword E (PasswordHash usr) p = None \<and> db' = db \<and>
    fmlookup (refreshTokens as') r = Some u \<and> as_Validate E' a as' = Inr (u, user_ID usr)"
  using assms(1)
proof (cases rule: as_Login_cases)
  case (1 usr bs)
  then have as': "secret as' = secret as" "fmlookup (refreshTokens as') r = Some u" "db' = db" by auto
  have "active_user db u = Some usr"
    using pg_users.find_active [OF assms(2) 1(3)] by simp
  moreover have "as_Validate E' a as' = Inr (u, user_ID usr)"
    using 1(5) as'(1) by (intro validate_access [OF assms(3) _ assms(4,5)]) simp
  ultimately show ?thesis using 1(4) as' by blast
qed

definition witness_env :: auth_env where
  "witness_env = test_env\<lparr>
     SignedString := one_token_sign (access_claims test_env ''alice'' ''u1'') ''key'',
     jwt_Parse := one_token_parse (access_claims test_env ''alice'' ''u1'') ''key'' 0\<rparr>"

definition alice_db :: db_state where
  "alice_db = empty_db\<lparr>t_users := [NewUser ''u1'' (Time 0) ''alice'' ''bcrypt:pw'']\<rparr>"

lemma alice_db_inv: "db_inv alice_db"
  by (simp add: alice_db_def db_inv_def empty_db_def)

theorem Login_sound_witness:
  "\<exists>a r as'. as_Login (pg_user_repo Some id Runs) witness_env ''alice'' ''pw'' (NewAuthService ''key'', alice_db) =
     (Inr (a, r), as', alice_db) \<and> as_Validate witness_env a as' = Inr (''alice'', ''u1'')"
proof -
  let ?usr = "NewUser ''u1'' (Time 0) ''alice'' ''bcrypt:pw''"
  have usr: "active_user alice_db ''alice'' = Some ?usr"
    by (simp add: active_user_def alice_db_def NewUser_def)
  have cl: "access_claims witness_env = access_claims test_env"
    by (simp add: access_claims_def witness_env_def fun_eq_iff)
  have env: "SignedString witness_env (access_claims test_env ''alice'' ''u1'') ''key'' = Inr ''h.c.s''"
    "CompareHashAndPassword witness_env ''bcrypt:pw'' ''pw'' = None" "rand_Read witness_env = Inr (replicate 32 (CHR ''x''))"
    by (simp add: witness_env_def one_token_sign_def) (simp_all add: witness_env_def test_env_def)
  obtain a r as' where login: "as_Login (pg_user_repo Some id Runs) witness_env ''alice'' ''pw'' (NewAuthService ''key'', alice_db) =
     (Inr (a, r), as', alice_db)"
    by (simp add: as_Login_def pg_find usr cl env as_IssueRefreshToken_def Let_def NewAuthService_def NewUser_def)
  have law: "jwt_law (SignedString witness_env) (one_token_parse (access_claims test_env ''alice'' ''u1'') ''key'')"
    by (simp add: witness_env_def one_token_law)
  have parse: "jwt_Parse witness_env = one_token_parse (access_claims test_env ''alice'' ''u1'') ''key'' (Now_Unix witness_env)"
    "Now_Unix witness_env \<le> Now_Unix witness_env + 24 * 3600"
    by (simp_all add: witness_env_def test_env_def)
  from Login_sound [OF login alice_db_inv law parse] usr login show ?thesis by (auto simp: NewUser_def)
qed

text \<open>
  C18. Registration round trip: after a successful \<open>Register\<close> the user can log in with the same
  password, in any later state that still has the account and given a hash that bcrypt recognises, a
  signature and random bytes; and a second \<open>Register\<close> of the name is refused, changing nothing.
\<close>

theorem Register_then_Login:
  assumes "as_Register (pg_user_repo uuid ts Runs) E u p (as, db) = (None, as1, db1)"
    and "db_inv db" and "uuid (uuid_New E) = Some (uuid_New E)"
    and "active_user db2 u = active_user db1 u"
    and "\<forall>h. GenerateFromPassword E p = Inr h \<longrightarrow> CompareHashAndPassword E' h p = None"
    and "\<forall>cl. \<exists>a. SignedString E' cl (secret as2) = Inr a" and "rand_Read E' = Inr bs"
  shows "(\<exists>a. fst (as_Login (pg_user_repo uuid ts Runs) E' u p (as2, db2)) = Inr (a, hex_encode bs)) \<and>
    as_Register (pg_user_repo uuid ts Runs) E'' u p' (as2, db2) =
      (Some (if p' = '''' then err_password else Err ''username already taken''), as2, db2)"
proof -
  obtain h where h: "GenerateFromPassword E p = Inr h"
    and c: "CreateUser (pg_user_repo uuid ts Runs) (NewUser (uuid_New E) (time_Now E) u h) db = (None, db1)"
    and ok: "u \<noteq> ''''" "p \<noteq> ''''" "ValidateUsername u = None"
    using assms(1) by (auto simp: as_Register_def as_Register_check_def as_Register_create_def
        split: option.splits sum.splits if_splits prod.splits)
  have "canonical_user uuid (NewUser (uuid_New E) (time_Now E) u h)"
    using assms(3) by (simp add: canonical_user_def NewUser_def)
  from pg_users.create_ok [OF assms(2) this c]
  have "active_user db2 u = Some (kept_user ts (NewUser (uuid_New E) (time_Now E) u h))"
    using assms(4) by (simp add: NewUser_def)
  moreover obtain a where "SignedString E' (access_claims E' u (uuid_New E)) (secret as2) = Inr a" using assms(6) by blast
  ultimately show ?thesis
    using ok h assms(5,7)
    by (auto simp: as_Login_def pg_find as_IssueRefreshToken_def Let_def NewUser_def kept_user_def as_Register_def as_Register_check_def)
qed

theorem Register_then_Login_witness:
  "\<exists>as1 db1 a. as_Register (pg_user_repo Some id Runs) test_env ''alice'' ''pw'' (NewAuthService ''key'', empty_db) = (None, as1, db1) \<and>
     fst (as_Login (pg_user_repo Some id Runs) test_env ''alice'' ''pw'' (as1, db1)) =
       Inr (a, hex_encode (replicate 32 (CHR ''x'')))"
proof -
  obtain as1 db1 where reg: "as_Register (pg_user_repo Some id Runs) test_env ''alice'' ''pw'' (NewAuthService ''key'', empty_db) = (None, as1, db1)"
    by (simp add: as_Register_def as_Register_check_def as_Register_create_def pg_user_repo_def UserRepo_FindByUsername_def
        query_row_def UserRepo_Create_def exec_sql_Runs empty_db_def NewUser_def test_env_def ValidateUsername_def
        usernameRegex_def is_alnum_def)
  have "Some (uuid_New test_env) = Some (uuid_New test_env)" by simp
  from Register_then_Login [OF reg empty_db_inv this refl, of test_env as1 "replicate 32 (CHR ''x'')"] reg
  show ?thesis by (auto simp: test_env_def)
qed

text \<open>
  C19. Concurrent registrations of a name: whatever the two checks said before, of two insertions of
  the same name at most one succeeds, and if the first does, the second fails and changes nothing.
\<close>

theorem Register_race:
  assumes "db_inv db" and "uuid (uuid_New E1) = Some (uuid_New E1)"
    and "as_Register_create (pg_user_repo uuid ts q1) E1 u p1 db = (None, db1)"
    and "as_Register_create (pg_user_repo uuid ts q2) E2 u p2 db1 = (r2, db2)"
  shows "r2 \<noteq> None \<and> db2 = db1"
proof -
  obtain h where c: "CreateUser (pg_user_repo uuid ts q1) (NewUser (uuid_New E1) (time_Now E1) u h) db = (None, db1)"
    using assms(3) by (auto simp: as_Register_create_def split: sum.splits prod.splits option.splits)
  have "canonical_user uuid (NewUser (uuid_New E1) (time_Now E1) u h)"
    using assms(2) by (simp add: canonical_user_def NewUser_def)
  from pg_users.create_ok [OF assms(1) this c]
  have inv: "db_inv db1" and active: "active_user db1 u = Some (kept_user ts (NewUser (uuid_New E1) (time_Now E1) u h))"
    by (simp_all add: NewUser_def)
  have "\<exists>e. CreateUser (pg_user_repo uuid ts q2) (NewUser (uuid_New E2) (time_Now E2) u h') db1 = (Some e, db1)" for h'
    by (rule pg_users.create_taken [OF inv]) (simp add: NewUser_def active)
  then obtain e where e: "\<And>h'. CreateUser (pg_user_repo uuid ts q2) (NewUser (uuid_New E2) (time_Now E2) u h') db1 = (Some (e h'), db1)"
    by metis
  show ?thesis
    using assms(4) by (cases "GenerateFromPassword E2 p2") (auto simp: as_Register_create_def e)
qed

theorem Register_race_witness:
  "\<exists>db1 r2 db2. as_Register_create (pg_user_repo Some id Runs) test_env ''alice'' ''pw'' empty_db = (None, db1) \<and>
     as_Register_create (pg_user_repo Some id Runs) (test_env\<lparr>uuid_New := ''u2''\<rparr>) ''alice'' ''other'' db1 = (r2, db2) \<and>
     r2 \<noteq> None \<and> db2 = db1"
proof -
  obtain db1 where c: "as_Register_create (pg_user_repo Some id Runs) test_env ''alice'' ''pw'' empty_db = (None, db1)"
    by (simp add: as_Register_create_def pg_user_repo_def UserRepo_Create_def exec_sql_Runs empty_db_def NewUser_def test_env_def)
  obtain r2 db2 where c2: "as_Register_create (pg_user_repo Some id Runs) (test_env\<lparr>uuid_New := ''u2''\<rparr>) ''alice'' ''other'' db1 = (r2, db2)"
    by fastforce
  have "Some (uuid_New test_env) = Some (uuid_New test_env)" by simp
  from Register_race [OF empty_db_inv this c c2] c c2 show ?thesis by blast
qed

text \<open>
  C16. Refresh tokens are single-use: over any history of calls, with any failures of the repository,
  in which no two drawn tokens are equal, no token is accepted twice and every accepted token was
  issued by a login or an earlier refresh; the store maps the tokens that are live to the users they
  were issued to.
\<close>

theorem refresh_single_use:
  assumes "auth_run authService ops (NewAuthService sec, s) = (evs, as', s')" and "distinct (issued evs)"
  shows "distinct (accepted evs) \<and> set (accepted evs) \<subseteq> set (issued evs) \<and>
    fmlookup (refreshTokens as') = fold owners evs (\<lambda>_. None)"
  using repo_auth.single_use [OF assms(1) _ assms(2)] by (simp add: NewAuthService_def)

theorem refresh_single_use_witness:
  "\<exists>evs as' s'. auth_run authService
     [OLogin (pg_user_repo Some id Runs, test_env) ''alice'' ''pw'',
      ORefresh (pg_user_repo Some id Runs, test_env\<lparr>rand_Read := Inr ''ab''\<rparr>) (hex_encode (replicate 32 (CHR ''x''))),
      ORefresh (pg_user_repo Some id Runs, test_env) (hex_encode (replicate 32 (CHR ''x'')))]
     (NewAuthService ''key'', alice_db) = (evs, as', s') \<and>
   accepted evs = [hex_encode (replicate 32 (CHR ''x''))] \<and> distinct (accepted evs) \<and>
   set (accepted evs) \<subseteq> set (issued evs)"
proof -
  let ?t = "hex_encode (replicate 32 (CHR ''x''))"
  let ?ops = "[OLogin (pg_user_repo Some id Runs, test_env) ''alice'' ''pw'',
      ORefresh (pg_user_repo Some id Runs, test_env\<lparr>rand_Read := Inr ''ab''\<rparr>) ?t,
      ORefresh (pg_user_repo Some id Runs, test_env) ?t]"
  have usr: "active_user alice_db ''alice'' = Some (NewUser ''u1'' (Time 0) ''alice'' ''bcrypt:pw'')"
    by (simp add: active_user_def alice_db_def NewUser_def)
  have len: "length ?t = 64" "length (hex_encode ''ab'') = 4" by (simp_all add: length_hex_encode)
  have "length ?t \<noteq> length (hex_encode ''ab'')" "length ?t \<noteq> length ''''" unfolding len by simp_all
  then have ne: "?t \<noteq> hex_encode ''ab''" "?t \<noteq> ''''" by metis+
  obtain evs as' s' where run: "auth_run authService ?ops (NewAuthService ''key'', alice_db) = (evs, as', s')"
    by (metis prod_cases3)
  have evs: "evs = [Issued ?t ''alice'', Rotated ?t (hex_encode ''ab''), Refused ?t]"
    using run ne by (simp add: authService_def as_Login_def as_Refresh_def pg_find usr as_IssueRefreshToken_def Let_def
        NewAuthService_def NewUser_def test_env_def)
  with ne have "distinct (issued evs)" by simp
  from refresh_single_use [OF run this] run evs show ?thesis by auto
qed

text \<open>
  \<open>Refresh\<close> revokes before it looks the user up: when the repository fails during the call, the
  client gets an error and its token is gone, so every retry is refused, also with a working
  repository.
\<close>

theorem failed_refresh_burns_token:
  assumes "fmlookup (refreshTokens as) t = Some u" and "t \<noteq> ''''" and "FindByUsername R u s = Inl e"
  shows "fst (as_Refresh R E t (as, s)) = Inl err_refresh \<and>
    as_Refresh R' E' t (snd (as_Refresh R E t (as, s))) = (Inl err_refresh, snd (as_Refresh R E t (as, s)))"
  using assms by (simp add: as_Refresh_def Let_def)

theorem failed_refresh_burns_token_witness:
  "fst (as_Refresh (pg_user_repo Some id Runs) test_env ''ab''
     (snd (as_Refresh (pg_user_repo Some id (FailsExec (Err ''timeout''))) test_env ''ab''
        (\<lparr>refreshTokens = fmupd ''ab'' ''alice'' fmempty, secret = ''key''\<rparr>, alice_db)))) = Inl err_refresh"
  using failed_refresh_burns_token [of "\<lparr>refreshTokens = fmupd ''ab'' ''alice'' fmempty, secret = ''key''\<rparr>" "''ab''" "''alice''"
      "pg_user_repo Some id (FailsExec (Err ''timeout''))" alice_db _ test_env "pg_user_repo Some id Runs" test_env]
  by (simp add: pg_user_repo_def UserRepo_FindByUsername_def query_row_def)

text \<open>
  Refresh tokens are hexadecimal, so nothing else, an access token with its dots in particular, is
  ever accepted as a refresh token, whatever the history.
\<close>

theorem access_token_is_no_refresh_token:
  assumes "auth_run authService ops (NewAuthService sec, s) = (evs, as', s')" and "\<not> is_hex t"
  shows "as_Refresh R E t (as', s') = (Inl err_refresh, as', s')"
proof -
  have "hex_tokens (refreshTokens as')"
    using repo_auth.run_tokens_hex [OF assms(1)] by (simp add: NewAuthService_def hex_tokens_def)
  with assms(2) have "fmlookup (refreshTokens as') t = None"
    by (auto simp: hex_tokens_def fmdom_lookup)
  moreover have "t \<noteq> ''''" using assms(2) by (auto simp: is_hex_def)
  ultimately show ?thesis by (simp add: as_Refresh_def)
qed

theorem access_token_is_no_refresh_token_witness:
  "\<exists>evs as' s'. auth_run authService [OLogin (pg_user_repo Some id Runs, test_env) ''alice'' ''pw'']
     (NewAuthService ''key'', alice_db) = (evs, as', s') \<and>
   as_Refresh (pg_user_repo Some id Runs) test_env ''h.c.s'' (as', s') = (Inl err_refresh, as', s')"
proof -
  obtain evs as' s' where run: "auth_run authService [OLogin (pg_user_repo Some id Runs, test_env) ''alice'' ''pw'']
     (NewAuthService ''key'', alice_db) = (evs, as', s')" by (metis prod_cases3)
  have "\<not> is_hex ''h.c.s''" by (simp add: is_hex_def)
  from access_token_is_no_refresh_token [OF run this] run show ?thesis by blast
qed

text \<open>
  C20. The in-memory service and the repository-backed service over a working PostgreSQL are
  equivalent: after the same history of calls with fresh IDs they have issued, rotated and refused the
  same tokens, and every further \<open>Login\<close>, \<open>Refresh\<close> and \<open>Validate\<close> gets the same answer from both, up to
  the error, as does every \<open>Register\<close> whose user ID is fresh too: both succeed or both fail.
\<close>

theorem auth_services_equivalent:
  assumes "auth_run authService (map (map_auth_op (pg_call uuid ts)) ops) (NewAuthService sec, empty_db) = (evs, as, db)"
    and "auth_run inMemoryAuthService ops (NewInMemoryAuthService sec) = (evs', im)"
    and "list_all (\<lambda>op. uuid (uuid_New (op_env op)) = Some (uuid_New (op_env op))) ops"
    and "distinct (map (\<lambda>op. uuid_New (op_env op)) ops)"
  shows "evs = evs' \<and>
    (uuid (uuid_New E) = Some (uuid_New E) \<and> uuid_New E \<notin> (\<lambda>op. uuid_New (op_env op)) ` set ops \<longrightarrow>
      (fst (as_Register (pg_user_repo uuid ts Runs) E u p (as, db)) = None \<longleftrightarrow> fst (im_Register E u p im) = None)) \<and>
    agree (fst (as_Login (pg_user_repo uuid ts Runs) E u p (as, db))) (fst (im_Login E u p im)) \<and>
    agree (fst (as_Refresh (pg_user_repo uuid ts Runs) E t (as, db))) (fst (im_Refresh E t im)) \<and>
    as_Validate E t as = im_Validate E t im"
proof -
  have init: "auth_sim (NewAuthService sec, empty_db) (NewInMemoryAuthService sec)"
    by (auto simp: auth_sim_def NewAuthService_def NewInMemoryAuthService_def empty_db_inv active_user_def fun_eq_iff)
      (simp_all add: empty_db_def)
  have "(\<lambda>op. uuid_New (op_env op)) ` set ops \<inter> user_ID ` set (t_users (snd (NewAuthService sec, empty_db))) = {}"
    by (simp add: empty_db_def)
  from sim_run [OF init assms(3,4) this assms(1,2)] have sim: "evs = evs'" "auth_sim (as, db) im"
    and ids: "user_ID ` set (t_users db) \<subseteq> (\<lambda>op. uuid_New (op_env op)) ` set ops" by (auto simp: empty_db_def)
  have "fst (as_Register (pg_user_repo uuid ts Runs) E u p (as, db)) = None \<longleftrightarrow> fst (im_Register E u p im) = None"
    if "uuid (uuid_New E) = Some (uuid_New E)" "uuid_New E \<notin> (\<lambda>op. uuid_New (op_env op)) ` set ops"
    using sim_register [where uuid = uuid and ts = ts and E = E and u = u and p = p, OF sim(2) that(1)] ids that(2) by blast
  with sim(1) sim_login [OF sim(2)] sim_refresh [OF sim(2)] sim_validate [OF sim(2)] show ?thesis by blast
qed

theorem auth_services_equivalent_witness:
  "\<exists>evs as db im. auth_run authService (map (map_auth_op (pg_call Some id)) [ORegister test_env ''alice'' ''pw''])
      (NewAuthService ''key'', empty_db) = (evs, as, db) \<and>
    auth_run inMemoryAuthService [ORegister test_env ''alice'' ''pw''] (NewInMemoryAuthService ''key'') = (evs, im) \<and>
    agree (fst (as_Login (pg_user_repo Some id Runs) test_env ''alice'' ''pw'' (as, db))) (fst (im_Login test_env ''alice'' ''pw'' im))"
proof -
  let ?ops = "[ORegister test_env ''alice'' ''pw'']"
  obtain evs as db where r: "auth_run authService (map (map_auth_op (pg_call Some id)) ?ops) (NewAuthService ''key'', empty_db) = (evs, as, db)"
    by (metis prod_cases3)
  obtain evs' im where r': "auth_run inMemoryAuthService ?ops (NewInMemoryAuthService ''key'') = (evs', im)"
    by (rule prod.exhaust)
  have "list_all (\<lambda>op. Some (uuid_New (op_env op)) = Some (uuid_New (op_env op))) ?ops"
    "distinct (map (\<lambda>op. uuid_New (op_env op)) ?ops)" by simp_all
  from auth_services_equivalent [OF r r' this, of test_env "''alice''" "''pw''"] r r' show ?thesis by blast
qed

end
