(* ===== verification/Services.thy ===== *)
theory Services
  imports Auth RoomStore Presence
begin

text \<open>
  The gRPC handlers of the three services (cmd/auth-service, cmd/messaging-service,
  cmd/presence-service) over their stores, the faults of a remote call, the retry loop of the gateway
  and internal/events. A handler returns the error or the response and the new state of its store.
\<close>

section \<open>cmd/auth-service/server.go\<close>

record session_response =
  resp_Username :: string
  resp_UserId :: string
  resp_Token :: string

record refresh_response = session_response +
  resp_RefreshToken :: string

text \<open>\<open>Register\<close> and \<open>Login\<close> drop the refresh token: their responses have no field for it.\<close>

definition grpc_Register ::
  "('c, 'st) auth_iface \<Rightarrow> 'c \<Rightarrow> string \<Rightarrow> string \<Rightarrow> 'st \<Rightarrow> (go_error + session_response) \<times> 'st" where
  "grpc_Register A c username password st =
     (case Register A c username password st of
        (Some e, st) \<Rightarrow> (Inl (Wrap ''error registering user'' e), st)
      | (None, st) \<Rightarrow>
          (case Login A c username password st of
             (Inl e, st) \<Rightarrow> (Inl (Wrap ''error creating tokens'' e), st)
           | (Inr (accessToken, _), st) \<Rightarrow>
               (case Validate A c accessToken st of
                  Inl e \<Rightarrow> (Inl (Wrap ''error validating user'' e), st)
                | Inr (_, userID) \<Rightarrow>
                    (Inr \<lparr>resp_Username = username, resp_UserId = userID, resp_Token = accessToken\<rparr>, st))))"

definition grpc_Login ::
  "('c, 'st) auth_iface \<Rightarrow> 'c \<Rightarrow> string \<Rightarrow> string \<Rightarrow> 'st \<Rightarrow> (go_error + session_response) \<times> 'st" where
  "grpc_Login A c username password st =
     (case Login A c username password st of
        (Inl e, st) \<Rightarrow> (Inl (Wrap ''error logging in user'' e), st)
      | (Inr (accessToken, _), st) \<Rightarrow>
          (case Validate A c accessToken st of
             Inl e \<Rightarrow> (Inl (Wrap ''error validating user'' e), st)
           | Inr (_, userID) \<Rightarrow>
               (Inr \<lparr>resp_Username = username, resp_UserId = userID, resp_Token = accessToken\<rparr>, st)))"

definition grpc_ValidateToken :: "('c, 'st) auth_iface \<Rightarrow> 'c \<Rightarrow> string \<Rightarrow> 'st \<Rightarrow> go_error + string" where
  "grpc_ValidateToken A c token st =
     (case Validate A c token st of
        Inl e \<Rightarrow> Inl (Wrap ''error validating user'' e)
      | Inr (username, _) \<Rightarrow> Inr username)"

definition grpc_Refresh ::
  "('c, 'st) auth_iface \<Rightarrow> 'c \<Rightarrow> string \<Rightarrow> 'st \<Rightarrow> (go_error + refresh_response) \<times> 'st" where
  "grpc_Refresh A c token st =
     (case Refresh A c token st of
        (Inl e, st) \<Rightarrow> (Inl (Wrap ''error refreshing token'' e), st)
      | (Inr (accessToken, refreshToken), st) \<Rightarrow>
          (case Validate A c accessToken st of
             Inl e \<Rightarrow> (Inl (Wrap ''error validating user'' e), st)
           | Inr (username, userID) \<Rightarrow>
               (Inr \<lparr>resp_Username = username, resp_UserId = userID, resp_Token = accessToken,
                     resp_RefreshToken = refreshToken\<rparr>, st)))"

section \<open>cmd/messaging-service/server.go\<close>

definition grpc_JoinRoom ::
  "'s room_repo \<Rightarrow> string \<Rightarrow> time \<Rightarrow> string \<Rightarrow> string \<Rightarrow> room_store \<times> 's \<Rightarrow> (go_error + bool) \<times> room_store \<times> 's" where
  "grpc_JoinRoom R uuid now roomName username st =
     (case rs_JoinRoom R uuid now roomName username st of
        (Some e, st) \<Rightarrow> (Inl (Wrap ''error joining room'' e), st)
      | (None, st) \<Rightarrow> (Inr True, st))"

definition grpc_LeaveRoom :: "string \<Rightarrow> string \<Rightarrow> room_store \<Rightarrow> (go_error + bool) \<times> room_store" where
  "grpc_LeaveRoom roomName username st =
     (case rs_LeaveRoom roomName username st of
        (Some e, st) \<Rightarrow> (Inl (Wrap ''error leaving room'' e), st)
      | (None, st) \<Rightarrow> (Inr True, st))"

definition grpc_ListRooms :: "(string fset \<Rightarrow> string list) \<Rightarrow> room_store \<Rightarrow> go_error + string list" where
  "grpc_ListRooms ord st = Inr (rs_ListRooms ord st)"

definition grpc_ListRoomMembers ::
  "(string fset \<Rightarrow> string list) \<Rightarrow> string \<Rightarrow> room_store \<Rightarrow> go_error + string list" where
  "grpc_ListRoomMembers ord roomName st =
     (case rs_ListRoomMembers ord roomName st of
        (Some e, _) \<Rightarrow> Inl (Wrap ''error getting room members'' e)
      | (None, roomMembers) \<Rightarrow> Inr roomMembers)"

definition grpc_GetRoomID :: "string \<Rightarrow> room_store \<Rightarrow> go_error + string" where
  "grpc_GetRoomID roomName st = Inr (rs_GetRoomID roomName st)"

section \<open>cmd/presence-service/server.go\<close>

definition grpc_ListOnline :: "(string fset \<Rightarrow> string list) \<Rightarrow> online_store \<Rightarrow> go_error + string list" where
  "grpc_ListOnline ord os = Inr (ListOnline ord os)"

section \<open>internal/events/events.go\<close>

text \<open>
  The bus is the list of published messages. \<open>json.Marshal\<close> is a parameter; \<open>fault\<close> is the error of
  the NATS connection during this call, if any.
\<close>

type_synonym bus = "(string \<times> string) list"

definition SubjectUserJoined :: string where "SubjectUserJoined = ''user.joined''"
definition SubjectUserLeft :: string where "SubjectUserLeft = ''user.left''"
definition SubjectMessageSent :: string where "SubjectMessageSent = ''message.sent''"
definition SubjectUserPresence :: string where "SubjectUserPresence = ''user.presence''"

definition Publish ::
  "(event \<Rightarrow> go_error + string) \<Rightarrow> go_error option \<Rightarrow> string \<Rightarrow> event \<Rightarrow> bus \<Rightarrow> go_error option \<times> bus" where
  "Publish marshal fault subject ev bus =
     (case marshal ev of
        Inl e \<Rightarrow> (Some (Wrap ''error serializing event'' e), bus)
      | Inr dat \<Rightarrow>
          (case fault of
             Some e \<Rightarrow> (Some (Wrap ''failed to publish event'' e), bus)
           | None \<Rightarrow> (None, bus @ [(subject, dat)])))"

section \<open>Remote calls\<close>

text \<open>A call may be lost before or after the server has run the handler.\<close>

datatype rpc_fault = Answered | RequestLost go_error | ReplyLost go_error

definition rpc :: "rpc_fault \<Rightarrow> ('st \<Rightarrow> (go_error + 'r) \<times> 'st) \<Rightarrow> 'st \<Rightarrow> (go_error + 'r) \<times> 'st" where
  "rpc fault h st =
     (case fault of
        Answered \<Rightarrow> h st
      | RequestLost e \<Rightarrow> (Inl e, st)
      | ReplyLost e \<Rightarrow> (Inl e, snd (h st)))"

text \<open>
  \<open>callWithRetry\<close>: attempts \<open>attempt\<close> to \<open>maxAttempts\<close>, the state, and the sleeps it makes (nanoseconds). The
  closure is given the number of the attempt, for what differs between attempts.
\<close>

function retry_from ::
  "nat \<Rightarrow> (nat \<Rightarrow> 'st \<Rightarrow> (go_error + 'r) \<times> 'st) \<Rightarrow> nat \<Rightarrow> int \<Rightarrow> 'st \<Rightarrow> (go_error + 'r) \<times> int list \<times> 'st" where
  "retry_from attempt fn maxAttempts delay st =
     (if attempt \<le> maxAttempts
      then case fn attempt st of
             (Inl err, st) \<Rightarrow>
               (let delay' = delay * 2;
                    delay' = (if delay' > 30 * 1000000000 then 30 * 1000000000 else delay') in
                case retry_from (Suc attempt) fn maxAttempts delay' st of
                  (res, sleeps, st) \<Rightarrow> (res, delay # sleeps, st))
           | (Inr r, st) \<Rightarrow> (Inr r, [], st)
      else (Inl (Err ''max retry attempts reached''), [], st))"
  by pat_completeness auto
termination by (relation "measure (\<lambda>(attempt, fn, maxAttempts, delay, st). Suc maxAttempts - attempt)") auto

declare retry_from.simps [simp del]

definition callWithRetry ::
  "(nat \<Rightarrow> 'st \<Rightarrow> (go_error + 'r) \<times> 'st) \<Rightarrow> nat \<Rightarrow> int \<Rightarrow> 'st \<Rightarrow> (go_error + 'r) \<times> int list \<times> 'st" where
  "callWithRetry fn maxAttempts initialDelay st = retry_from 1 fn maxAttempts initialDelay st"

section \<open>Lemmas\<close>

text \<open>The state after \<open>k\<close> failed attempts.\<close>

fun after_failures :: "(nat \<Rightarrow> 'st \<Rightarrow> (go_error + 'r) \<times> 'st) \<Rightarrow> nat \<Rightarrow> nat \<Rightarrow> 'st \<Rightarrow> 'st" where
  "after_failures fn i 0 st = st"
| "after_failures fn i (Suc k) st = after_failures fn (Suc i) k (snd (fn i st))"

lemma retry_from_spec:
  assumes "0 \<le> d" and "d \<le> 30 * 1000000000"
  shows "case retry_from i fn n d st of (res, sleeps, st') \<Rightarrow>
    \<exists>k. k \<le> Suc n - i \<and> sleeps = map (backoff d) [0..<k] \<and>
      (\<forall>j < k. \<exists>e. fst (fn (i + j) (after_failures fn i j st)) = Inl e) \<and>
      (if k = Suc n - i then res = Inl (Err ''max retry attempts reached'') \<and> st' = after_failures fn i k st
       else \<exists>r. res = Inr r \<and> fn (i + k) (after_failures fn i k st) = (Inr r, st'))"
  using assms
proof (induction i fn n d st rule: retry_from.induct)
  case (1 i fn n d st)
  show ?case
  proof (cases "i \<le> n")
    case True
    obtain res1 st1 where f: "fn i st = (res1, st1)" by fastforce
    show ?thesis
    proof (cases res1)
      case (Inr r)
      then show ?thesis using True f
        by (auto simp: retry_from.simps [of i] intro!: exI [of _ 0])
    next
      case (Inl e)
      let ?d = "if d * 2 > 30 * 1000000000 then 30 * 1000000000 else d * 2"
      obtain res sleeps st' where r: "retry_from (Suc i) fn n ?d st1 = (res, sleeps, st')" by (metis prod_cases3)
      have rec: "retry_from i fn n d st = (res, d # sleeps, st')"
        using True f Inl r by (simp add: retry_from.simps [of i] Let_def)
      have "0 \<le> ?d" "?d \<le> 30 * 1000000000" using 1(2) by auto
      from 1(1) [OF True f [symmetric] Inl refl refl this, unfolded r]
      obtain k where k: "k \<le> n - i" "sleeps = map (backoff ?d) [0..<k]"
        "\<forall>j<k. \<exists>e. fst (fn (Suc i + j) (after_failures fn (Suc i) j st1)) = Inl e"
        "if k = n - i then res = Inl (Err ''max retry attempts reached'') \<and> st' = after_failures fn (Suc i) k st1
         else \<exists>r. res = Inr r \<and> fn (Suc i + k) (after_failures fn (Suc i) k st1) = (Inr r, st')"
        by auto
      have "d # sleeps = map (backoff d) [0..<Suc k]"
      proof -
        have next_delay: "backoff (if d * 2 > 30 * 1000000000 then 30 * 1000000000 else d * 2) = (\<lambda>i. backoff d (Suc i))"
          using backoff_next [OF 1(2)] by (rule ext)
        have "backoff d 0 = d" using 1(3) by (simp add: backoff_def)
        then show ?thesis
          unfolding k(2) next_delay by (simp add: upt_conv_Cons map_Suc_upt [symmetric] del: upt_Suc)
      qed
      moreover have "\<forall>j < Suc k. \<exists>e. fst (fn (i + j) (after_failures fn i j st)) = Inl e"
        using k(3) f Inl by (auto simp: less_Suc_eq_0_disj)
      ultimately show ?thesis
        unfolding rec using k(1,4) True f by (auto simp: Suc_diff_le intro!: exI [of _ "Suc k"])
    qed
  next
    case False
    then show ?thesis by (auto simp: retry_from.simps [of i])
  qed
qed

text \<open>A token that is not in the store is refused and the refusal changes nothing.\<close>

lemma refresh_dead:
  assumes "fmlookup (refreshTokens as) t = None"
  shows "\<exists>e. grpc_Refresh authService c t (as, s) = (Inl e, as, s)"
  using assms by (cases c) (auto simp: grpc_Refresh_def authService_def as_Refresh_def)

lemma refresh_kills:
  assumes "t \<noteq> ''''" and "\<forall>bs. rand_Read (snd c) = Inr bs \<longrightarrow> hex_encode bs \<noteq> t"
    and "grpc_Refresh authService c t (as, s) = (res, as', s')"
  shows "fmlookup (refreshTokens as') t = None"
proof -
  obtain r as1 s1 where r: "Refresh authService c t (as, s) = (r, as1, s1)" by (metis prod_cases3)
  have "fmlookup (refreshTokens as1) t = None"
  proof (cases r)
    case (Inl e)
    with repo_auth.refresh_failed [of c t "(as, s)" e "(as1, s1)"] r assms(1) show ?thesis by simp
  next
    case (Inr p)
    obtain a t' where p: "p = (a, t')" by (rule prod.exhaust)
    with repo_auth.refresh_ok [of c t "(as, s)" a t' "(as1, s1)"] r Inr assms(2) show ?thesis by auto
  qed
  moreover have "as' = as1"
    using assms(3) r by (auto simp: grpc_Refresh_def split: sum.splits prod.splits)
  ultimately show ?thesis by simp
qed

section \<open>Properties\<close>

text \<open>
  C26. The retry loop: \<open>callWithRetry\<close> calls the function until it succeeds, at most \<open>maxAttempts\<close> times,
  each attempt on the state the failed ones before it left; it returns the first success, or the
  error after the last failure; and it sleeps after every failed attempt, also the last one, for the
  initial delay doubled each time and capped at 30 seconds.
\<close>

theorem callWithRetry_spec:
  assumes "callWithRetry fn maxAttempts d st = (res, sleeps, st')" and "0 \<le> d" and "d \<le> 30 * 1000000000"
  shows "\<exists>k \<le> maxAttempts. sleeps = map (\<lambda>i. min (d * 2 ^ i) (30 * 1000000000)) [0..<k] \<and>
    (\<forall>j < k. \<exists>e. fst (fn (Suc j) (after_failures fn 1 j st)) = Inl e) \<and>
    (if k = maxAttempts then res = Inl (Err ''max retry attempts reached'') \<and> st' = after_failures fn 1 k st
     else \<exists>r. res = Inr r \<and> fn (Suc k) (after_failures fn 1 k st) = (Inr r, st'))"
  using retry_from_spec [where i = 1 and fn = fn and n = maxAttempts and st = st, OF assms(2,3)] assms(1)
  by (auto simp: callWithRetry_def backoff_def [abs_def])

theorem callWithRetry_spec_witness:
  "callWithRetry (\<lambda>i n. if i < 3 then (Inl (Err ''down''), Suc n) else (Inr i, Suc n)) 3 1000000000 (0 :: nat) =
     (Inr 3, [1000000000, 2000000000], 3) \<and>
   (\<exists>k \<le> 3. [1000000000, 2000000000] = map (\<lambda>i. min ((1000000000 :: int) * 2 ^ i) (30 * 1000000000)) [0..<k :: nat])"
proof -
  let ?fn = "\<lambda>i n :: nat. if i < 3 then (Inl (Err ''down''), Suc n) else (Inr i, Suc n)"
  have run: "callWithRetry ?fn 3 1000000000 0 = (Inr 3, [1000000000, 2000000000], 3)"
    by (simp add: callWithRetry_def retry_from.simps Let_def)
  have "0 \<le> (1000000000 :: int)" "(1000000000 :: int) \<le> 30 * 1000000000" by simp_all
  from callWithRetry_spec [OF run this] obtain k :: nat
    where "k \<le> 3" "[1000000000, 2000000000] = map (\<lambda>i. min ((1000000000 :: int) * 2 ^ i) (30 * 1000000000)) [0..<k]"
    by (elim exE conjE)
  with run show ?thesis by (intro conjI exI [of _ k])
qed

text \<open>
  C27. Retrying does not help a refresh whose reply is lost: if the first attempt reaches the auth
  service but its reply does not come back, all further attempts are refused, the gateway reports
  failure, and the client's token is dead.
\<close>

theorem lost_refresh_reply:
  assumes "faults 1 = ReplyLost e" and "t \<noteq> ''''"
    and "\<forall>bs. rand_Read (snd (calls 1)) = Inr bs \<longrightarrow> hex_encode bs \<noteq> t"
  shows "case callWithRetry (\<lambda>i. rpc (faults i) (grpc_Refresh authService (calls i) t)) 3 1000000000 (as, s) of
    (res, sleeps, (as', s')) \<Rightarrow>
      res = Inl (Err ''max retry attempts reached'') \<and> fmlookup (refreshTokens as') t = None"
proof -
  let ?fn = "\<lambda>i. rpc (faults i) (grpc_Refresh authService (calls i) t)"
  obtain res1 as1 s1 where first: "grpc_Refresh authService (calls 1) t (as, s) = (res1, as1, s1)" by (metis prod_cases3)
  have dead: "fmlookup (refreshTokens as1) t = None" using assms(2,3) first by (rule refresh_kills)
  then have refused: "\<exists>e. ?fn i (as1, s1) = (Inl e, as1, s1)" for i
    using refresh_dead [OF dead, of "calls i" s1] by (cases "faults i") (auto simp: rpc_def)
  have "?fn 1 (as, s) = (Inl e, as1, s1)" using assms(1) first by (simp add: rpc_def)
  moreover obtain e2 where "?fn 2 (as1, s1) = (Inl e2, as1, s1)" using refused by blast
  moreover obtain e3 where "?fn 3 (as1, s1) = (Inl e3, as1, s1)" using refused by blast
  ultimately show ?thesis
    using dead by (simp add: callWithRetry_def retry_from.simps Let_def numeral_2_eq_2 numeral_3_eq_3)
qed

theorem lost_refresh_reply_witness:
  "case callWithRetry (\<lambda>i. rpc (if i = 1 then ReplyLost (Err ''timeout'') else Answered)
         (grpc_Refresh authService (pg_user_repo Some id Runs, test_env) ''ab'')) 3 1000000000
       (\<lparr>refreshTokens = fmupd ''ab'' ''alice'' fmempty, secret = ''key''\<rparr>, alice_db) of
     (res, sleeps, st) \<Rightarrow> res = Inl (Err ''max retry attempts reached'')"
proof -
  have "length (hex_encode (replicate 32 (CHR ''x''))) \<noteq> length ''ab''" unfolding length_hex_encode by simp
  then have "\<forall>bs. rand_Read (snd (pg_user_repo Some id Runs, test_env)) = Inr bs \<longrightarrow> hex_encode bs \<noteq> ''ab''"
    by (auto simp: test_env_def)
  from lost_refresh_reply [of "\<lambda>i. if i = 1 then ReplyLost (Err ''timeout'') else Answered" "Err ''timeout''" "''ab''"
      "\<lambda>i. (pg_user_repo Some id Runs, test_env)", OF _ _ this,
      of "\<lparr>refreshTokens = fmupd ''ab'' ''alice'' fmempty, secret = ''key''\<rparr>" alice_db]
  show ?thesis by (auto split: prod.splits)
qed

end
