(* ===== verification/Gateway.thy ===== *)
theory Gateway
  imports Services Router ConnRegistry SlidingWindow TokenBucket
begin

text \<open>
  cmd/server/main.go: the gateway. One record holds the state of the process and of the services it
  calls; a connection's goroutine is a session state that says where \<open>handleConn\<close> stands. Every
  definition that ends in \<open>_step\<close> is what the goroutine does from one read to the next; the steps of
  different connections interleave in any order.

  An \<open>env\<close> holds what a step meets: clock readings, fresh IDs, and the faults of its remote calls,
  statements and publications, numbered in the order the code makes them. A step that dereferences
  the nil response of a failed call panics: it returns \<open>Inl\<close> of the state at that point, with all it did
  before. Deadlines show as the error of a read.
\<close>

section \<open>The state\<close>

record env =
  e_clk_reg :: "time \<times> time"
  e_clk_msg :: "time \<times> time \<times> time"
  e_now :: time
  e_id :: "nat \<Rightarrow> string"
  e_rpc :: "nat \<Rightarrow> rpc_fault"
  e_sql :: "nat \<Rightarrow> sql"
  e_pub :: "nat \<Rightarrow> go_error option"
  e_auth :: "nat \<Rightarrow> auth_env"
  e_ord :: "string fset \<Rightarrow> string list"
  e_host :: "conn \<Rightarrow> string"
  e_uuid :: uuid_conv
  e_ts :: ts_conv
  e_marshal :: "event \<Rightarrow> go_error + string"
  e_srt :: "message list \<Rightarrow> message list"

record gateway =
  gw_registry :: registry
  gw_regLimiter :: sw_registry
  gw_msgLimiter :: bucket_registry
  gw_presence :: presence_store
  gw_router :: router
  gw_db :: db_state
  gw_auth :: auth_service
  gw_rooms :: room_store
  gw_online :: online_store
  gw_bus :: bus
  gw_net :: network

definition start_gateway :: "string \<Rightarrow> db_state \<Rightarrow> network \<Rightarrow> gateway" where
  "start_gateway sec db net =
     \<lparr>gw_registry = NewConnRegistry,
      gw_regLimiter = NewRegistry 3 3600000000000,
      gw_msgLimiter = NewBucketRegistry 5 (1/2),
      gw_presence = NewInMemoryPresenceStore,
      gw_router = NewInMemoryMessageRouter,
      gw_db = db, gw_auth = NewAuthService sec, gw_rooms = NewRoomStore, gw_online = NewOnlineStore,
      gw_bus = [], gw_net = net\<rparr>"

datatype session =
    Absent
  | AuthMenu
  | RegisterName
  | RegisterPassword string
  | LoginName
  | LoginPassword string
  | RefreshPrompt
  | Authenticated string string
  | Present string string
  | InRoom string string string
  | Closed

section \<open>The calls of the handlers\<close>

definition say :: "conn \<Rightarrow> string \<Rightarrow> gateway \<Rightarrow> gateway" where
  "say c txt gw = gw\<lparr>gw_net := snd (send txt c (gw_net gw))\<rparr>"

definition recv :: "conn \<Rightarrow> gateway \<Rightarrow> (go_error + string) \<times> gateway" where
  "recv c gw =
     (case ReadMessage (gw_net gw c) of
        (Inl e, st) \<Rightarrow> (Inl e, gw\<lparr>gw_net := (gw_net gw)(c := st)\<rparr>)
      | (Inr f, st) \<Rightarrow> (Inr (frame_Data f), gw\<lparr>gw_net := (gw_net gw)(c := st)\<rparr>))"

definition publish :: "env \<Rightarrow> nat \<Rightarrow> string \<Rightarrow> event \<Rightarrow> gateway \<Rightarrow> gateway" where
  "publish E i subject ev gw = gw\<lparr>gw_bus := snd (Publish (e_marshal E) (e_pub E i) subject ev (gw_bus gw))\<rparr>"

text \<open>The calls of the auth service go through \<open>callWithRetry\<close>, three attempts from one second.\<close>

definition auth_rpc ::
  "env \<Rightarrow> (db_state user_repo \<times> auth_env \<Rightarrow> auth_service \<times> db_state \<Rightarrow> (go_error + 'r) \<times> auth_service \<times> db_state) \<Rightarrow>
   gateway \<Rightarrow> (go_error + 'r) \<times> gateway" where
  "auth_rpc E handler gw =
     (case callWithRetry
             (\<lambda>i. rpc (e_rpc E i) (handler (pg_user_repo (e_uuid E) (e_ts E) (e_sql E i), e_auth E i)))
             3 1000000000 (gw_auth gw, gw_db gw) of
        (res, sleeps, as, db) \<Rightarrow> (res, gw\<lparr>gw_auth := as, gw_db := db\<rparr>))"

definition remote_JoinRoom :: "env \<Rightarrow> nat \<Rightarrow> string \<Rightarrow> string \<Rightarrow> gateway \<Rightarrow> gateway" where
  "remote_JoinRoom E i roomName username gw =
     (case rpc (e_rpc E i)
             (grpc_JoinRoom (pg_room_repo (e_uuid E) (e_ts E) (e_sql E i)) (e_id E i) (e_now E) roomName username)
             (gw_rooms gw, gw_db gw) of
        (res, rs, db) \<Rightarrow> gw\<lparr>gw_rooms := rs, gw_db := db\<rparr>)"

definition remote_LeaveRoom :: "env \<Rightarrow> nat \<Rightarrow> string \<Rightarrow> string \<Rightarrow> gateway \<Rightarrow> gateway" where
  "remote_LeaveRoom E i roomName username gw =
     gw\<lparr>gw_rooms := snd (rpc (e_rpc E i) (grpc_LeaveRoom roomName username) (gw_rooms gw))\<rparr>"

definition remote_GetRoomID :: "env \<Rightarrow> nat \<Rightarrow> string \<Rightarrow> gateway \<Rightarrow> go_error + string" where
  "remote_GetRoomID E i roomName gw =
     fst (rpc (e_rpc E i) (\<lambda>st. (grpc_GetRoomID roomName st, st)) (gw_rooms gw))"

definition remote_ListOnline :: "env \<Rightarrow> nat \<Rightarrow> gateway \<Rightarrow> go_error + string list" where
  "remote_ListOnline E i gw =
     fst (rpc (e_rpc E i) (\<lambda>st. (grpc_ListOnline (e_ord E) st, st)) (gw_online gw))"

definition local_JoinRoom :: "env \<Rightarrow> nat \<Rightarrow> string \<Rightarrow> string \<Rightarrow> conn \<Rightarrow> gateway \<Rightarrow> gateway" where
  "local_JoinRoom E i roomName username c gw =
     (case rt_JoinRoom (pg_room_repo (e_uuid E) (e_ts E) (e_sql E i)) (e_id E i) (e_now E) roomName username (Some c)
             (gw_router gw, gw_db gw) of
        (res, rt, db) \<Rightarrow> gw\<lparr>gw_router := rt, gw_db := db\<rparr>)"

definition broadcast :: "env \<Rightarrow> string \<Rightarrow> message \<Rightarrow> gateway \<Rightarrow> go_error option \<times> gateway" where
  "broadcast E roomName msg gw =
     (case rt_BroadcastRoom (e_ord E) roomName msg (gw_router gw) (gw_net gw) of
        (err, net) \<Rightarrow> (err, gw\<lparr>gw_net := net\<rparr>))"

text \<open>The newest 20 messages, sent oldest first; an error is logged.\<close>

definition show_history :: "env \<Rightarrow> nat \<Rightarrow> conn \<Rightarrow> string \<Rightarrow> string \<Rightarrow> gateway \<Rightarrow> gateway" where
  "show_history E i c currentRoom roomID gw =
     (case MessageRepo_ListByRoom (e_srt E) (e_uuid E) (e_sql E i) roomID 20 (gw_db gw) of
        Inl e \<Rightarrow> gw
      | Inr messages \<Rightarrow>
          fold (\<lambda>msg. say c (''['' @ currentRoom @ ''] '' @ From msg @ '': '' @ Body msg)) (rev messages) gw)"

section \<open>Accepting and closing\<close>

definition accept_conn :: "conn \<Rightarrow> gateway \<Rightarrow> session \<times> gateway" where
  "accept_conn c gw =
     (case Registry_Add (Some c) (gw_registry gw) of
        (Some e, r) \<Rightarrow> (Closed, gw\<lparr>gw_registry := r\<rparr>)
      | (None, r) \<Rightarrow>
          (AuthMenu, say c ''welcome to relay-go. /register or /login:'' (gw\<lparr>gw_registry := r\<rparr>)))"

text \<open>The deferred calls of \<open>handleConn\<close>, last one first; the name is set once the user is present.\<close>

definition close_conn :: "env \<Rightarrow> conn \<Rightarrow> string option \<Rightarrow> gateway \<Rightarrow> gateway" where
  "close_conn E c username gw =
     (let gw = (case username of
                  None \<Rightarrow> gw
                | Some u \<Rightarrow> gw\<lparr>gw_router := rt_Disconnect (e_ord E) u (gw_router gw)\<rparr>);
          gw = gw\<lparr>gw_presence := snd (ps_Remove (e_ord E) (Some c) (gw_presence gw))\<rparr>
      in gw\<lparr>gw_registry := snd (Registry_Remove (Some c) (gw_registry gw))\<rparr>)"

section \<open>Authentication\<close>

definition sendError :: "conn \<Rightarrow> string \<Rightarrow> gateway \<Rightarrow> gateway" where
  "sendError c msg gw = say c ''enter /register or /login:'' (say c msg gw)"

definition auth_menu :: "env \<Rightarrow> conn \<Rightarrow> string \<Rightarrow> gateway \<Rightarrow> session \<times> gateway" where
  "auth_menu E c dat gw =
     (let userRes = TrimSpace dat in
      if userRes = ''/register''
      then (case Registry_Allow (e_clk_reg E) (e_host E c) (gw_regLimiter gw) of (ok, l) \<Rightarrow>
              (let gw = gw\<lparr>gw_regLimiter := l\<rparr> in
               if \<not> ok then (AuthMenu, sendError c ''registration rate limit exceeded - try again later'' gw)
               else (RegisterName, say c ''enter your username:'' gw)))
      else if userRes = ''/login'' then (LoginName, say c ''enter your username:'' gw)
      else if userRes = ''/refresh'' then (RefreshPrompt, say c ''enter your refresh token:'' gw)
      else (AuthMenu, say c ''invalid input. please enter /register or /login:'' gw))"

definition auth_register :: "env \<Rightarrow> conn \<Rightarrow> string \<Rightarrow> string \<Rightarrow> gateway \<Rightarrow> session \<times> gateway" where
  "auth_register E c username password gw =
     (case auth_rpc E (\<lambda>call. grpc_Register authService call username password) gw of
        (Inl e, gw) \<Rightarrow> (AuthMenu, sendError c ''auth service unavailable, please try again later'' gw)
      | (Inr res, gw) \<Rightarrow>
          (Authenticated (resp_Username res) (resp_UserId res),
           say c (''refresh:'' @ resp_Token res) (say c ''registration successful'' gw)))"

definition auth_login :: "env \<Rightarrow> conn \<Rightarrow> string \<Rightarrow> string \<Rightarrow> gateway \<Rightarrow> session \<times> gateway" where
  "auth_login E c username password gw =
     (case auth_rpc E (\<lambda>call. grpc_Login authService call username password) gw of
        (Inl e, gw) \<Rightarrow> (AuthMenu, sendError c ''auth service unavailable, please try again later'' gw)
      | (Inr res, gw) \<Rightarrow>
          if resp_Username res \<in> set (ps_List (e_ord E) (gw_presence gw))
          then (AuthMenu, sendError c ''user already logged in'' gw)
          else (Authenticated (resp_Username res) (resp_UserId res),
                say c (''refresh:'' @ resp_Token res) (say c ''login successful'' gw)))"

definition auth_refresh :: "env \<Rightarrow> conn \<Rightarrow> string \<Rightarrow> gateway \<Rightarrow> session \<times> gateway" where
  "auth_refresh E c refreshTokenOld gw =
     (case auth_rpc E (\<lambda>call. grpc_Refresh authService call refreshTokenOld) gw of
        (Inl e, gw) \<Rightarrow> (AuthMenu, sendError c ''auth service unavailable, please try again later'' gw)
      | (Inr res, gw) \<Rightarrow>
          (Authenticated (resp_Username res) (resp_UserId res),
           say c (''refresh:'' @ resp_RefreshToken res) (say c ''login successful'' gw)))"

definition runAuthLoop_step :: "env \<Rightarrow> conn \<Rightarrow> session \<Rightarrow> gateway \<Rightarrow> session \<times> gateway" where
  "runAuthLoop_step E c pc gw =
     (case recv c gw of
        (Inl e, gw) \<Rightarrow>
          (Closed, close_conn E c None (say c (error_text (Wrap ''connection lost during auth'' e)) gw))
      | (Inr dat, gw) \<Rightarrow>
          (case pc of
             AuthMenu \<Rightarrow> auth_menu E c dat gw
           | RegisterName \<Rightarrow> (RegisterPassword dat, say c ''enter your password:'' gw)
           | RegisterPassword username \<Rightarrow> auth_register E c username dat gw
           | LoginName \<Rightarrow> (LoginPassword dat, say c ''enter your password:'' gw)
           | LoginPassword username \<Rightarrow> auth_login E c username dat gw
           | RefreshPrompt \<Rightarrow> auth_refresh E c dat gw
           | _ \<Rightarrow> (pc, gw)))"

section \<open>The command loop\<close>

definition defaultRoom :: string where
  "defaultRoom = ''general chat''"

definition presence_add :: "conn \<Rightarrow> string \<Rightarrow> string \<Rightarrow> gateway \<Rightarrow> session \<times> gateway" where
  "presence_add c username userID gw =
     (Present username userID, gw\<lparr>gw_presence := snd (ps_Add username (Some c) (gw_presence gw))\<rparr>)"

definition runCommandLoop_enter :: "env \<Rightarrow> conn \<Rightarrow> string \<Rightarrow> string \<Rightarrow> gateway \<Rightarrow> gateway + session \<times> gateway" where
  "runCommandLoop_enter E c username userID gw =
     (let currentRoom = defaultRoom;
          gw = remote_JoinRoom E 1 currentRoom username gw;
          gw = local_JoinRoom E 2 currentRoom username c gw;
          gw = publish E 1 SubjectUserJoined (UserJoinedEvent username currentRoom) gw;
          gw = publish E 2 SubjectUserPresence (UserPresenceEvent username True) gw
      in case remote_GetRoomID E 3 currentRoom gw of
           Inl e \<Rightarrow> Inl gw
         | Inr roomID \<Rightarrow> Inr (InRoom username userID currentRoom, show_history E 4 c currentRoom roomID gw))"

definition commands :: string where
  "commands = concat (map (\<lambda>l. l @ [CHR 0x0A])
     [[],
      ''/join <room>'' @ replicate 3 (CHR 0x09) @ ''Join a room'',
      ''/leave'' @ replicate 5 (CHR 0x09) @ ''Leave current room'',
      ''/rooms'' @ replicate 5 (CHR 0x09) @ ''List active rooms and their members'',
      ''/who'' @ replicate 5 (CHR 0x09) @ ''List active users'',
      ''/quit'' @ replicate 5 (CHR 0x09) @ ''Disconnect''])"

definition server_message :: "env \<Rightarrow> nat \<Rightarrow> string \<Rightarrow> message" where
  "server_message E i body = NewMessage (e_id E i) (e_now E) ''server'' body"

definition cmd_join ::
  "env \<Rightarrow> conn \<Rightarrow> string \<Rightarrow> string \<Rightarrow> string \<Rightarrow> string list \<Rightarrow> gateway \<Rightarrow> gateway + session \<times> gateway" where
  "cmd_join E c username userID currentRoom args gw =
     (if args = [] then Inr (InRoom username userID currentRoom, say c ''usage: /join <room>'' gw)
      else let roomName = Join args '' '' in
      case ValidateRoomName roomName of
        Some err \<Rightarrow> Inr (InRoom username userID currentRoom, say c (error_text err) gw)
      | None \<Rightarrow>
          (let gw = remote_LeaveRoom E 1 currentRoom username gw;
               gw = remote_JoinRoom E 2 roomName username gw;
               gw = local_JoinRoom E 3 roomName username c gw;
               currentRoom = roomName
           in case remote_GetRoomID E 4 currentRoom gw of
                Inl e \<Rightarrow> Inl gw
              | Inr roomID \<Rightarrow>
                  (let gw = show_history E 5 c currentRoom roomID gw;
                       gw = publish E 1 SubjectUserJoined (UserJoinedEvent username currentRoom) gw;
                       gw = snd (broadcast E currentRoom (server_message E 6 (username @ '' joined the room'')) gw)
                   in Inr (InRoom username userID currentRoom, gw))))"

definition cmd_leave :: "env \<Rightarrow> conn \<Rightarrow> string \<Rightarrow> string \<Rightarrow> string \<Rightarrow> gateway \<Rightarrow> session \<times> gateway" where
  "cmd_leave E c username userID currentRoom gw =
     (let gw = remote_LeaveRoom E 1 currentRoom username gw;
          gw = publish E 1 SubjectUserLeft (UserLeftEvent username currentRoom) gw;
          gw = snd (broadcast E currentRoom (server_message E 2 (username @ '' left the room'')) gw);
          gw = remote_JoinRoom E 3 defaultRoom username gw;
          gw = local_JoinRoom E 4 defaultRoom username c gw;
          currentRoom = defaultRoom;
          gw = publish E 2 SubjectUserJoined (UserJoinedEvent username currentRoom) gw;
          gw = snd (broadcast E currentRoom (server_message E 5 (username @ '' joined the room'')) gw)
      in (InRoom username userID currentRoom, gw))"

definition cmd_who :: "env \<Rightarrow> conn \<Rightarrow> gateway \<Rightarrow> gateway + gateway" where
  "cmd_who E c gw =
     (case remote_ListOnline E 1 gw of
        Inl e \<Rightarrow> Inl gw
      | Inr users \<Rightarrow> Inr (say c (''online: '' @ Join users '', '') gw))"

definition cmd_message ::
  "env \<Rightarrow> conn \<Rightarrow> string \<Rightarrow> string \<Rightarrow> string \<Rightarrow> string \<Rightarrow> gateway \<Rightarrow> gateway + gateway" where
  "cmd_message E c username userID currentRoom msg gw =
     (case BucketRegistry_Allow (e_clk_msg E) username (gw_msgLimiter gw) of (ok, l) \<Rightarrow>
        (let gw = gw\<lparr>gw_msgLimiter := l\<rparr> in
         if \<not> ok then Inr (say c ''rate limit exceeded'' gw)
         else case broadcast E currentRoom (NewMessage (e_id E 1) (e_now E) username msg) gw of (err, gw) \<Rightarrow>
           (let gw = (if err \<noteq> None then say c ''you must be in a room to send messages'' gw else gw)
            in case remote_GetRoomID E 2 currentRoom gw of
                 Inl e \<Rightarrow> Inl gw
               | Inr roomID \<Rightarrow>
                   (let domainMsg = domain_NewMessage (e_id E 3) (e_now E) userID roomID username msg;
                        gw = gw\<lparr>gw_db := snd (MessageRepo_Create (e_uuid E) (e_ts E) (e_sql E 3) domainMsg (gw_db gw))\<rparr>
                    in Inr (publish E 1 SubjectMessageSent (MessageSentEvent username currentRoom msg) gw)))))"

definition runCommandLoop_step ::
  "env \<Rightarrow> conn \<Rightarrow> string \<Rightarrow> string \<Rightarrow> string \<Rightarrow> gateway \<Rightarrow> gateway + session \<times> gateway" where
  "runCommandLoop_step E c username userID currentRoom gw =
     (let stay = (\<lambda>gw. (InRoom username userID currentRoom, gw)) in
      case recv c gw of
        (Inl e, gw) \<Rightarrow>
          Inr (Closed, close_conn E c (Some username)
                          (publish E 1 SubjectUserPresence (UserPresenceEvent username False) gw))
      | (Inr dat, gw) \<Rightarrow>
          (let msg = TrimSpace dat in
           case Fields msg of
             [] \<Rightarrow> Inr (stay gw)
           | cmd # args \<Rightarrow>
               if cmd = ''/help'' then Inr (stay (say c commands gw))
               else if cmd = ''/join'' then cmd_join E c username userID currentRoom args gw
               else if cmd = ''/leave'' then Inr (cmd_leave E c username userID currentRoom gw)
               else if cmd = ''/rooms''
               then Inr (stay (gw\<lparr>gw_net := snd (rt_PrintRooms (e_ord E) (Some c) (gw_router gw) (gw_net gw))\<rparr>))
               else if cmd = ''/who'' then map_sum id stay (cmd_who E c gw)
               else map_sum id stay (cmd_message E c username userID currentRoom msg gw)))"

end
