(* ===== verification/System.thy ===== *)
theory System
  imports Gateway Cleanup
begin

text \<open>
  The running system: any number of connections, each at its place in \<open>handleConn\<close>, whose steps
  interleave with each other, with the network, the presence service's subscriber and the cleanup
  worker. Two invariants hold of every reachable state: every authenticated session belongs to an
  account, and every connection that the stores of the gateway refer to is an open session of that user.
\<close>

section \<open>Steps\<close>

record system =
  sys_gw :: gateway
  sess :: "conn \<Rightarrow> session"
  crashed :: bool

definition goto :: "conn \<Rightarrow> session \<times> gateway \<Rightarrow> system \<Rightarrow> system" where
  "goto c r s = s\<lparr>sys_gw := snd r, sess := (sess s)(c := fst r)\<rparr>"

text \<open>
  A panic in state \<open>g\<close> ends the gateway's process. What the step had done outside of it is done: rows of the
  database, the messaging service's rooms, publications, bytes on connections. The memory of the process
  and its sessions are gone; the state has them as they were before the step, and no session moves again.
\<close>

definition crash :: "gateway \<Rightarrow> system \<Rightarrow> system" where
  "crash g s = s\<lparr>sys_gw := (sys_gw s)\<lparr>gw_db := gw_db g, gw_auth := gw_auth g, gw_rooms := gw_rooms g,
     gw_online := gw_online g, gw_bus := gw_bus g, gw_net := gw_net g\<rparr>, crashed := True\<rparr>"

lemma crash_simps [simp]:
  "sess (crash g s) = sess s" "crashed (crash g s)" "gw_registry (sys_gw (crash g s)) = gw_registry (sys_gw s)"
  "gw_presence (sys_gw (crash g s)) = gw_presence (sys_gw s)" "gw_router (sys_gw (crash g s)) = gw_router (sys_gw s)"
  "gw_db (sys_gw (crash g s)) = gw_db g" "gw_auth (sys_gw (crash g s)) = gw_auth g" "gw_rooms (sys_gw (crash g s)) = gw_rooms g"
  "gw_bus (sys_gw (crash g s)) = gw_bus g"
  by (simp_all add: crash_def)

fun in_auth :: "session \<Rightarrow> bool" where
  "in_auth AuthMenu = True"
| "in_auth RegisterName = True"
| "in_auth (RegisterPassword u) = True"
| "in_auth LoginName = True"
| "in_auth (LoginPassword u) = True"
| "in_auth RefreshPrompt = True"
| "in_auth _ = False"

text \<open>
  What is assumed of a step's environment: maps are walked completely, fresh IDs are UUIDs in
  canonical form, and all calls use one JWT implementation. The steps take the assumption as the
  parameter \<open>L\<close>, so that a theorem can assume more.
\<close>

definition legal_env ::
  "uuid_conv \<Rightarrow> (claims \<Rightarrow> string \<Rightarrow> go_error + string) \<Rightarrow>
   (int \<Rightarrow> string \<Rightarrow> (jwt_token \<Rightarrow> go_error + string) \<Rightarrow> go_error + jwt_token) \<Rightarrow> env \<Rightarrow> bool" where
  "legal_env uuid sign parse E \<longleftrightarrow>
     iteration_order (e_ord E) \<and> e_uuid E = uuid \<and>
     (\<forall>i. uuid (e_id E i) = Some (e_id E i) \<and> uuid (uuid_New (e_auth E i)) = Some (uuid_New (e_auth E i)) \<and>
          SignedString (e_auth E i) = sign \<and> jwt_Parse (e_auth E i) = parse (Now_Unix (e_auth E i)))"

inductive sys_step for L where
  accept: "\<not> crashed s \<Longrightarrow> sess s c = Absent \<Longrightarrow>
    sys_step L s (goto c (accept_conn c (sys_gw s)) s)"
| auth: "\<not> crashed s \<Longrightarrow> in_auth (sess s c) \<Longrightarrow> L E \<Longrightarrow>
    sys_step L s (goto c (runAuthLoop_step E c (sess s c) (sys_gw s)) s)"
| present: "\<not> crashed s \<Longrightarrow> sess s c = Authenticated u i \<Longrightarrow>
    sys_step L s (goto c (presence_add c u i (sys_gw s)) s)"
| enter: "\<not> crashed s \<Longrightarrow> sess s c = Present u i \<Longrightarrow> L E \<Longrightarrow>
    runCommandLoop_enter E c u i (sys_gw s) = Inr r \<Longrightarrow> sys_step L s (goto c r s)"
| command: "\<not> crashed s \<Longrightarrow> sess s c = InRoom u i rn \<Longrightarrow> L E \<Longrightarrow>
    runCommandLoop_step E c u i rn (sys_gw s) = Inr r \<Longrightarrow> sys_step L s (goto c r s)"
| panic_enter: "\<not> crashed s \<Longrightarrow> sess s c = Present u i \<Longrightarrow> L E \<Longrightarrow>
    runCommandLoop_enter E c u i (sys_gw s) = Inl g \<Longrightarrow> sys_step L s (crash g s)"
| panic_command: "\<not> crashed s \<Longrightarrow> sess s c = InRoom u i rn \<Longrightarrow> L E \<Longrightarrow>
    runCommandLoop_step E c u i rn (sys_gw s) = Inl g \<Longrightarrow> sys_step L s (crash g s)"
| network: "sys_step L s (s\<lparr>sys_gw := (sys_gw s)\<lparr>gw_net := net\<rparr>\<rparr>)"
| deliver: "sys_step L s (s\<lparr>sys_gw := (sys_gw s)
    \<lparr>gw_online := on_presence_msg unmarshal dat (gw_online (sys_gw s))\<rparr>\<rparr>)"
| cleanup: "sys_step L s (s\<lparr>sys_gw := (sys_gw s)
    \<lparr>gw_db := cleanup_worker ago retention runs (gw_db (sys_gw s))\<rparr>\<rparr>)"

definition sys_init :: "string \<Rightarrow> db_state \<Rightarrow> network \<Rightarrow> system" where
  "sys_init sec db net = \<lparr>sys_gw = start_gateway sec db net, sess = (\<lambda>_. Absent), crashed = False\<rparr>"

inductive sys_reachable for L where
  start: "db_inv db \<Longrightarrow> sys_reachable L (sys_init sec db net)"
| step: "sys_reachable L s \<Longrightarrow> sys_step L s s' \<Longrightarrow> sys_reachable L s'"

lemma sys_step_mono: "sys_step L s s' \<Longrightarrow> (\<And>E. L E \<Longrightarrow> L' E) \<Longrightarrow> sys_step L' s s'"
  by (induction rule: sys_step.induct) (auto intro: sys_step.intros)

lemma sys_reachable_mono: "sys_reachable L s \<Longrightarrow> (\<And>E. L E \<Longrightarrow> L' E) \<Longrightarrow> sys_reachable L' s"
  by (induction rule: sys_reachable.induct) (auto intro: sys_reachable.intros sys_step_mono)

section \<open>What the calls change\<close>

text \<open>Calls that only write to the network, and calls that only publish.\<close>

definition same_but_net :: "gateway \<Rightarrow> gateway \<Rightarrow> bool" where
  "same_but_net g g' \<longleftrightarrow>
     gw_registry g' = gw_registry g \<and> gw_regLimiter g' = gw_regLimiter g \<and> gw_msgLimiter g' = gw_msgLimiter g \<and>
     gw_presence g' = gw_presence g \<and> gw_router g' = gw_router g \<and> gw_db g' = gw_db g \<and> gw_auth g' = gw_auth g \<and>
     gw_rooms g' = gw_rooms g \<and> gw_online g' = gw_online g"

lemma same_but_net_refl: "same_but_net g g"
  by (simp add: same_but_net_def)

lemma same_but_net_trans: "same_but_net g g' \<Longrightarrow> same_but_net g' g'' \<Longrightarrow> same_but_net g g''"
  by (simp add: same_but_net_def)

lemma same_but_net_say: "same_but_net g (say c txt g)"
  by (simp add: same_but_net_def say_def)

lemma same_but_net_publish: "same_but_net g (publish E i subj ev g)"
  by (simp add: same_but_net_def publish_def)

lemma same_but_net_recv: "recv c g = (r, g') \<Longrightarrow> same_but_net g g'"
  by (auto simp: same_but_net_def recv_def split: prod.splits sum.splits)

lemma same_but_net_broadcast: "same_but_net g (snd (broadcast E rn msg g))"
  by (simp add: same_but_net_def broadcast_def split: prod.splits)

lemma same_but_net_fold: "(\<And>x g. same_but_net g (f x g)) \<Longrightarrow> same_but_net g (fold f xs g)"
  by (induction xs arbitrary: g) (auto intro: same_but_net_refl same_but_net_trans)

lemma same_but_net_history: "same_but_net g (show_history E i c rn rid g)"
  by (auto simp: show_history_def intro: same_but_net_refl same_but_net_fold same_but_net_say split: sum.splits)

lemma same_but_net_sendError: "same_but_net g (sendError c msg g)"
  unfolding sendError_def by (blast intro: same_but_net_say same_but_net_trans)

lemma same_but_net_fields:
  assumes "same_but_net g g'"
  shows "gw_registry g' = gw_registry g" "gw_regLimiter g' = gw_regLimiter g" "gw_msgLimiter g' = gw_msgLimiter g"
    "gw_presence g' = gw_presence g" "gw_router g' = gw_router g" "gw_db g' = gw_db g" "gw_auth g' = gw_auth g"
    "gw_rooms g' = gw_rooms g" "gw_online g' = gw_online g"
  using assms by (auto simp: same_but_net_def)

lemmas say_fields [simp] = same_but_net_fields [OF same_but_net_say]
lemmas publish_fields [simp] = same_but_net_fields [OF same_but_net_publish]
lemmas broadcast_fields [simp] = same_but_net_fields [OF same_but_net_broadcast]
lemmas history_fields [simp] = same_but_net_fields [OF same_but_net_history]
lemmas sendError_fields [simp] = same_but_net_fields [OF same_but_net_sendError]

section \<open>Accounts\<close>

definition account :: "db_state \<Rightarrow> string \<Rightarrow> string \<Rightarrow> bool" where
  "account db u i \<longleftrightarrow> (\<exists>usr \<in> set (t_users db). Username usr = u \<and> user_ID usr = i)"

definition auth_ok :: "auth_service \<times> db_state \<Rightarrow> bool" where
  "auth_ok st \<longleftrightarrow> db_inv (snd st) \<and>
     (\<forall>t u. fmlookup (refreshTokens (fst st)) t = Some u \<longrightarrow> (\<exists>i. account (snd st) u i))"

definition keeps_users :: "db_state \<Rightarrow> db_state \<Rightarrow> bool" where
  "keeps_users db db' \<longleftrightarrow> set (t_users db) \<subseteq> set (t_users db')"

lemma keeps_account: "keeps_users db db' \<Longrightarrow> account db u i \<Longrightarrow> account db' u i"
  by (auto simp: keeps_users_def account_def)

lemma keeps_users_refl: "keeps_users db db"
  by (simp add: keeps_users_def)

lemma keeps_users_trans: "keeps_users db db' \<Longrightarrow> keeps_users db' db'' \<Longrightarrow> keeps_users db db''"
  by (auto simp: keeps_users_def)

fun session_ok :: "db_state \<Rightarrow> session \<Rightarrow> bool" where
  "session_ok db (Authenticated u i) = account db u i"
| "session_ok db (Present u i) = account db u i"
| "session_ok db (InRoom u i rn) = account db u i"
| "session_ok db _ = True"

lemma keeps_session: "keeps_users db db' \<Longrightarrow> session_ok db pc \<Longrightarrow> session_ok db' pc"
  by (cases pc) (auto intro: keeps_account)

text \<open>One call of an auth handler with a legal environment.\<close>

definition legal_call ::
  "uuid_conv \<Rightarrow> (claims \<Rightarrow> string \<Rightarrow> go_error + string) \<Rightarrow>
   (int \<Rightarrow> string \<Rightarrow> (jwt_token \<Rightarrow> go_error + string) \<Rightarrow> go_error + jwt_token) \<Rightarrow> db_state user_repo \<times> auth_env \<Rightarrow> bool" where
  "legal_call uuid sign parse call \<longleftrightarrow>
     (\<exists>ts. fst call \<in> range (pg_user_repo uuid ts)) \<and> uuid (uuid_New (snd call)) = Some (uuid_New (snd call)) \<and>
     SignedString (snd call) = sign \<and> jwt_Parse (snd call) = parse (Now_Unix (snd call))"

definition auth_post ::
  "('z session_response_scheme) option \<Rightarrow> db_state \<Rightarrow> auth_service \<times> db_state \<Rightarrow> bool" where
  "auth_post res db st \<longleftrightarrow> auth_ok st \<and> keeps_users db (snd st) \<and>
     (case res of None \<Rightarrow> True | Some r \<Rightarrow> account (snd st) (resp_Username r) (resp_UserId r))"

lemma as_Login_frame:
  assumes "as_Login R E u p (as, s) = (res, as', s')"
  shows "s' = s" "secret as' = secret as"
    "fmlookup (refreshTokens as') t = Some v \<Longrightarrow> v = u \<and> (\<exists>x. res = Inr x) \<or> fmlookup (refreshTokens as) t = Some v"
  using assms
  by (auto simp: as_Login_def as_IssueRefreshToken_def Let_def split: if_splits sum.splits option.splits prod.splits)

lemma as_Refresh_frame:
  assumes "as_Refresh R E t (as, s) = (res, as', s')"
  shows "s' = s" "secret as' = secret as"
    "fmlookup (refreshTokens as') t' = Some v \<Longrightarrow> \<exists>t''. fmlookup (refreshTokens as) t'' = Some v"
  using assms
  by (auto simp: as_Refresh_def Let_def split: if_splits sum.splits option.splits prod.splits)

lemma find_account:
  assumes "FindByUsername (pg_user_repo uuid ts q) u db = Inr (Some usr)" and "db_inv db"
  shows "account db u (user_ID usr)"
  using pg_users.find_active [OF assms(2,1)] by (auto simp: active_user_def account_def dest!: find_SomeD [OF sym])

lemma login_ok:
  assumes "legal_call uuid sign parse call" and "jwt_law sign parse" and "auth_ok (as, db)"
    and "Login authService call u p (as, db) = (res, as', db')"
  shows "auth_ok (as', db') \<and> db' = db"
    and "res = Inr (a, t) \<Longrightarrow> Validate authService call a (as', db') = Inr (x, i) \<Longrightarrow> account db' u i"
proof -
  obtain ts q where q: "fst call = pg_user_repo uuid ts q" using assms(1) by (auto simp: legal_call_def)
  have login: "as_Login (pg_user_repo uuid ts q) (snd call) u p (as, db) = (res, as', db')"
    using assms(4) q by (cases call) (simp add: authService_def)
  note frame = as_Login_frame [OF login]
  have acc: "\<exists>i. account db u i" if "res = Inr y" for y
  proof -
    obtain a t where "y = (a, t)" by (rule prod.exhaust)
    with login that have "as_Login (pg_user_repo uuid ts q) (snd call) u p (as, db) = (Inr (a, t), as', db')" by simp
    then obtain usr where "FindByUsername (pg_user_repo uuid ts q) u db = Inr (Some usr)" by (rule as_Login_cases)
    from find_account [OF this] assms(3) show ?thesis by (auto simp: auth_ok_def)
  qed
  then show "auth_ok (as', db') \<and> db' = db"
    using assms(3) frame unfolding auth_ok_def by (metis fst_conv snd_conv)
  assume r: "res = Inr (a, t)" and v: "Validate authService call a (as', db') = Inr (x, i)"
  from login r obtain usr where usr: "FindByUsername (pg_user_repo uuid ts q) u db = Inr (Some usr)"
    and a: "SignedString (snd call) (access_claims (snd call) u (user_ID usr)) (secret as') = Inr a"
    using frame(2) by (auto elim: as_Login_cases)
  have "as_Validate (snd call) a as' = Inr (u, user_ID usr)"
    using assms(1,2) by (intro validate_access [OF _ a, of parse]) (auto simp: legal_call_def)
  with v have "i = user_ID usr" by (cases call) (simp add: authService_def)
  with find_account [OF usr] assms(3) frame(1) show "account db' u i" by (simp add: auth_ok_def)
qed

lemma create_snd: "CreateUser (pg_user_repo uuid ts q) usr db = (x, db') \<Longrightarrow> db' = snd (UserRepo_Create uuid ts q usr db)"
  by (simp add: pg_user_repo_def)

lemma register_ok:
  assumes "legal_call uuid sign parse call" and "auth_ok (as, db)"
    and "Register authService call u p (as, db) = (res, as', db')"
  shows "auth_ok (as', db') \<and> keeps_users db db'"
proof -
  obtain ts q where q: "fst call = pg_user_repo uuid ts q" using assms(1) by (auto simp: legal_call_def)
  have "as_Register (pg_user_repo uuid ts q) (snd call) u p (as, db) = (res, as', db')"
    using assms(3) q by (cases call) (simp add: authService_def)
  then have as': "as' = as" and db': "db' = db \<or> (\<exists>usr. db' = snd (UserRepo_Create uuid ts q usr db))"
    by (auto simp: as_Register_def as_Register_create_def dest!: create_snd
        split: option.splits sum.splits prod.splits)
  have keep: "keeps_users db (snd (UserRepo_Create uuid ts q usr db))" for usr
    by (auto simp: keeps_users_def UserRepo_Create_def exec_sql_def split: sql.splits option.splits if_splits sum.splits)
  from db' have "db_inv db' \<and> keeps_users db db'"
    using assms(2) keep UserRepo_Create_inv by (auto simp: auth_ok_def keeps_users_refl)
  then show ?thesis using assms(2) as' unfolding auth_ok_def by (metis fst_conv snd_conv keeps_account)
qed

lemma grpc_Login_ok:
  assumes "legal_call uuid sign parse call" and "jwt_law sign parse" and "auth_ok (as, db)"
    and "grpc_Login authService call u p (as, db) = (res, st')"
  shows "auth_post (case res of Inl e \<Rightarrow> None | Inr r \<Rightarrow> Some r) db st'"
proof -
  obtain r as1 db1 where l: "Login authService call u p (as, db) = (r, as1, db1)" by (metis prod_cases3)
  note ok = login_ok [OF assms(1,2,3) l]
  show ?thesis
    using assms(4) l ok
    by (auto simp: grpc_Login_def auth_post_def keeps_users_refl split: sum.splits prod.splits)
qed

lemma grpc_Register_ok:
  assumes "legal_call uuid sign parse call" and "jwt_law sign parse" and "auth_ok (as, db)"
    and "grpc_Register authService call u p (as, db) = (res, st')"
  shows "auth_post (case res of Inl e \<Rightarrow> None | Inr r \<Rightarrow> Some r) db st'"
proof -
  obtain r0 as0 db0 where reg: "Register authService call u p (as, db) = (r0, as0, db0)" by (metis prod_cases3)
  note ok0 = register_ok [OF assms(1,3) reg]
  obtain r as1 db1 where l: "Login authService call u p (as0, db0) = (r, as1, db1)" by (metis prod_cases3)
  note ok = login_ok [OF assms(1,2) _ l]
  show ?thesis
    using assms(4) reg l ok0 ok
    by (auto simp: grpc_Register_def auth_post_def split: sum.splits prod.splits option.splits)
qed

lemma grpc_Refresh_ok:
  assumes "legal_call uuid sign parse call" and "jwt_law sign parse" and "auth_ok (as, db)"
    and "grpc_Refresh authService call t (as, db) = (res, st')"
  shows "auth_post (case res of Inl e \<Rightarrow> None | Inr r \<Rightarrow> Some r) db st'"
proof -
  obtain ts q where q: "fst call = pg_user_repo uuid ts q" using assms(1) by (auto simp: legal_call_def)
  obtain r as1 db1 where r: "Refresh authService call t (as, db) = (r, as1, db1)" by (metis prod_cases3)
  have ref: "as_Refresh (pg_user_repo uuid ts q) (snd call) t (as, db) = (r, as1, db1)"
    using r q by (cases call) (simp add: authService_def)
  note frame = as_Refresh_frame [OF ref]
  have ok: "auth_ok (as1, db1)" using assms(3) frame unfolding auth_ok_def by (metis fst_conv snd_conv)
  have "account db1 x i" if ra: "r = Inr (a, t')" and v: "Validate authService call a (as1, db1) = Inr (x, i)" for a t' x i
  proof -
    obtain u usr where usr: "FindByUsername (pg_user_repo uuid ts q) u db = Inr (Some usr)"
      and a: "SignedString (snd call) (access_claims (snd call) u (user_ID usr)) (secret as1) = Inr a"
      using as_Refresh_cases [OF ref [unfolded ra]] frame(2) by metis
    have "as_Validate (snd call) a as1 = Inr (u, user_ID usr)"
      using assms(1,2) by (intro validate_access [OF _ a, of parse]) (auto simp: legal_call_def)
    with v have "x = u" "i = user_ID usr" by (cases call, simp add: authService_def)+
    with find_account [OF usr] assms(3) frame(1) show ?thesis by (simp add: auth_ok_def)
  qed
  with assms(4) r ok frame(1) show ?thesis
    by (auto simp: grpc_Refresh_def auth_post_def keeps_users_refl split: sum.splits prod.splits)
qed

text \<open>An invariant of the attempts is one of the retry loop.\<close>

lemma retry_from_inv:
  assumes "\<And>i st. I st \<Longrightarrow> I (snd (fn i st))" and "\<And>i st r st'. I st \<Longrightarrow> fn i st = (Inr r, st') \<Longrightarrow> P r st'" and "I st"
    and "retry_from i fn n d st = (res, sleeps, st')"
  shows "I st' \<and> (\<forall>r. res = Inr r \<longrightarrow> P r st')"
  using assms
proof (induction i fn n d st arbitrary: sleeps rule: retry_from.induct)
  case (1 i fn n d st)
  show ?case
  proof (cases "i \<le> n")
    case True
    obtain r st1 where f: "fn i st = (r, st1)" by fastforce
    have I: "I st1" using 1(2) [OF 1(4), of i] f by simp
    show ?thesis
    proof (cases r)
      case (Inl e)
      let ?d = "if d * 2 > 30 * 1000000000 then 30 * 1000000000 else d * 2"
      obtain sl where sl: "retry_from (Suc i) fn n ?d st1 = (res, sl, st')"
        using 1(5) True f Inl by (auto simp: retry_from.simps [of i fn] Let_def split: prod.splits)
      show ?thesis
        by (rule 1(1) [OF True f [symmetric] Inl refl refl]) (fact 1(2), fact 1(3), fact I, fact sl)
    next
      case (Inr x)
      then show ?thesis using 1(3) [OF 1(4)] 1(5) True f I by (auto simp: retry_from.simps [of i fn])
    qed
  next
    case False
    then show ?thesis using 1(4,5) by (auto simp: retry_from.simps [of i fn])
  qed
qed

section \<open>Authentic sessions\<close>

definition acc :: "gateway \<Rightarrow> bool" where
  "acc g \<longleftrightarrow> auth_ok (gw_auth g, gw_db g)"

text \<open>What does not touch the accounts.\<close>

definition same_accounts :: "gateway \<Rightarrow> gateway \<Rightarrow> bool" where
  "same_accounts g g' \<longleftrightarrow> gw_auth g' = gw_auth g \<and> t_users (gw_db g') = t_users (gw_db g) \<and>
     (db_inv (gw_db g) \<longrightarrow> db_inv (gw_db g'))"

lemma same_accounts_refl: "same_accounts g g"
  by (simp add: same_accounts_def)

lemma same_accounts_trans: "same_accounts g g' \<Longrightarrow> same_accounts g' g'' \<Longrightarrow> same_accounts g g''"
  by (simp add: same_accounts_def)

lemma same_accounts_net: "same_but_net g g' \<Longrightarrow> same_accounts g g'"
  by (simp add: same_accounts_def same_but_net_def)

lemma same_accounts_acc: "same_accounts g g' \<Longrightarrow> acc g \<Longrightarrow> acc g' \<and> keeps_users (gw_db g) (gw_db g')"
  by (auto simp: same_accounts_def acc_def auth_ok_def account_def keeps_users_def)

lemma same_accounts_fields:
  "gw_auth g' = gw_auth g \<Longrightarrow> gw_db g' = gw_db g \<Longrightarrow> same_accounts g g'"
  by (simp add: same_accounts_def)

lemma find_or_create_keeps:
  assumes "find_or_create_room (pg_room_repo uuid ts q) i t n db = (res, db')"
  shows "t_users db' = t_users db \<and> (db_inv db \<longrightarrow> db_inv db')"
proof -
  have cr: "t_users (snd (RoomRepo_Create uuid ts q rm db)) = t_users db" for rm
    by (auto simp: RoomRepo_Create_def exec_sql_def split: sql.splits option.splits if_splits sum.splits)
  have "db' = db \<or> (\<exists>rm. db' = snd (RoomRepo_Create uuid ts q rm db))"
    using assms
    by (cases "RoomRepo_Create uuid ts q (NewRoom i t n) db")
      (auto simp: find_or_create_room_def pg_room_repo_def Let_def split: sum.splits option.splits intro: exI [of _ "NewRoom i t n"])
  then show ?thesis using cr RoomRepo_Create_inv by auto
qed

lemma rs_join_keeps:
  assumes "rs_JoinRoom (pg_room_repo uuid ts q) i t n u (st, db) = (res, st', db')"
  shows "t_users db' = t_users db \<and> (db_inv db \<longrightarrow> db_inv db')"
  using assms by (cases rule: rs_join_cases) (auto dest: find_or_create_keeps)

lemma rt_join_keeps:
  assumes "rt_JoinRoom (pg_room_repo uuid ts q) i t n u c (st, db) = (res, st', db')"
  shows "t_users db' = t_users db \<and> (db_inv db \<longrightarrow> db_inv db')"
  using assms by (cases rule: rt_join_cases) (auto dest: find_or_create_keeps)

lemma same_accounts_remote_join: "same_accounts g (remote_JoinRoom E i rn u g)"
proof -
  obtain res rs db where j: "rs_JoinRoom (pg_room_repo (e_uuid E) (e_ts E) (e_sql E i)) (e_id E i) (e_now E) rn u (gw_rooms g, gw_db g) =
    (res, rs, db)" by (metis prod_cases3)
  from rs_join_keeps [OF j] j show ?thesis
    by (cases "e_rpc E i"; cases res) (auto simp: remote_JoinRoom_def rpc_def grpc_JoinRoom_def same_accounts_def)
qed

lemma same_accounts_local_join: "same_accounts g (local_JoinRoom E i rn u c g)"
proof -
  obtain res rs db where j: "rt_JoinRoom (pg_room_repo (e_uuid E) (e_ts E) (e_sql E i)) (e_id E i) (e_now E) rn u (Some c) (gw_router g, gw_db g) =
    (res, rs, db)" by (metis prod_cases3)
  from rt_join_keeps [OF j] j show ?thesis by (auto simp: local_JoinRoom_def same_accounts_def)
qed

lemma same_accounts_message:
  "same_accounts g (g\<lparr>gw_db := snd (MessageRepo_Create uuid ts q m (gw_db g))\<rparr>)"
  using MessageRepo_Create_inv [of "gw_db g" uuid ts q m]
  by (auto simp: same_accounts_def MessageRepo_Create_def exec_sql_def split: sql.splits option.splits if_splits sum.splits)

lemma cleanup_users: "t_users (cleanup_worker ago retention runs db) = t_users db"
proof (induction ago retention runs db rule: cleanup_worker.induct)
  case (2 ago retention q1 q2 n1 n2 runs db)
  have "t_users (snd (runCleanup ago q1 q2 n1 n2 retention db)) = t_users db"
    by (auto simp: runCleanup_def exec_sql_def delete_messages_def delete_rooms_def Let_def split: sql.splits)
  with 2 show ?case by simp
qed simp

lemma same_accounts_remote_leave: "same_accounts g (remote_LeaveRoom E i rn u g)"
  by (simp add: same_accounts_def remote_LeaveRoom_def)

lemma same_accounts_close: "same_accounts g (close_conn E c u g)"
  by (cases u) (simp_all add: same_accounts_def close_conn_def Let_def)

lemma same_accounts_updates:
  "same_accounts g (g\<lparr>gw_msgLimiter := l\<rparr>)" "same_accounts g (g\<lparr>gw_regLimiter := rl\<rparr>)"
  "same_accounts g (g\<lparr>gw_net := n\<rparr>)"
  by (rule same_accounts_fields; simp)+

text \<open>The rules in chained form: a sequence of calls is taken apart from its end.\<close>

lemmas same_accounts_basics = same_accounts_net [OF same_but_net_say] same_accounts_net [OF same_but_net_publish]
  same_accounts_net [OF same_but_net_broadcast] same_accounts_net [OF same_but_net_history]
  same_accounts_net [OF same_but_net_sendError] same_accounts_remote_join same_accounts_local_join same_accounts_message
  same_accounts_remote_leave same_accounts_close same_accounts_updates

lemmas same_accounts_chain = same_accounts_basics [THEN [2] same_accounts_trans]

lemma same_accounts_cmd_join:
  "cmd_join E c u i rn args g = Inr (pc, g') \<Longrightarrow> same_accounts g g' \<and> (\<exists>rn'. pc = InRoom u i rn')"
  "cmd_join E c u i rn args g = Inl g' \<Longrightarrow> same_accounts g g'"
  unfolding cmd_join_def Let_def
  by (auto split: if_splits option.splits sum.splits intro!: same_accounts_chain same_accounts_refl)

lemma same_accounts_cmd_leave:
  "same_accounts g (snd (cmd_leave E c u i rn g)) \<and> fst (cmd_leave E c u i rn g) = InRoom u i defaultRoom"
  unfolding cmd_leave_def Let_def by (auto intro!: same_accounts_chain same_accounts_refl)

lemma same_accounts_message_db:
  "same_accounts g0 g \<Longrightarrow> gw_db g = db \<Longrightarrow> same_accounts g0 (g\<lparr>gw_db := snd (MessageRepo_Create uuid ts q m db)\<rparr>)"
  using same_accounts_message by (auto intro: same_accounts_trans)

lemma same_accounts_cmd_message:
  assumes "cmd_message E c u i rn msg g \<in> {Inl g', Inr g'}"
  shows "same_accounts g g'"
proof -
  obtain ok l where a: "BucketRegistry_Allow (e_clk_msg E) u (gw_msgLimiter g) = (ok, l)" by fastforce
  obtain err g1 where b: "broadcast E rn (NewMessage (e_id E 1) (e_now E) u msg) (g\<lparr>gw_msgLimiter := l\<rparr>) = (err, g1)" by fastforce
  have g1: "g1 = snd (broadcast E rn (NewMessage (e_id E 1) (e_now E) u msg) (g\<lparr>gw_msgLimiter := l\<rparr>))" using b by simp
  have "same_accounts g g1" unfolding g1 by (intro same_accounts_chain same_accounts_refl)
  then show ?thesis
    using assms a b unfolding cmd_message_def Let_def
    by (auto split: if_splits sum.splits intro!: same_accounts_message_db same_accounts_chain intro: same_accounts_refl)
qed

lemma same_accounts_enter:
  "runCommandLoop_enter E c u i g = Inr (pc, g') \<Longrightarrow> same_accounts g g' \<and> pc = InRoom u i defaultRoom"
  "runCommandLoop_enter E c u i g = Inl g' \<Longrightarrow> same_accounts g g'"
  unfolding runCommandLoop_enter_def Let_def
  by (auto split: sum.splits intro!: same_accounts_chain same_accounts_refl)

text \<open>What a frame in the command loop leads to: the end of the session, or one of the commands.\<close>

lemma command_step:
  assumes "recv c g = (Inr dat, g1)" "Fields (TrimSpace dat) = cmd # args"
  shows "runCommandLoop_step E c u i rn g =
    (if cmd = ''/help'' then Inr (InRoom u i rn, say c commands g1)
     else if cmd = ''/join'' then cmd_join E c u i rn args g1
     else if cmd = ''/leave'' then Inr (cmd_leave E c u i rn g1)
     else if cmd = ''/rooms''
     then Inr (InRoom u i rn, g1\<lparr>gw_net := snd (rt_PrintRooms (e_ord E) (Some c) (gw_router g1) (gw_net g1))\<rparr>)
     else if cmd = ''/who'' then map_sum id (Pair (InRoom u i rn)) (cmd_who E c g1)
     else map_sum id (Pair (InRoom u i rn)) (cmd_message E c u i rn (TrimSpace dat) g1))"
  by (simp only: runCommandLoop_step_def Let_def assms prod.case sum.case list.case)

lemma command_cases:
  assumes "runCommandLoop_step E c u i rn g = res"
  obtains (closed) e g1 where "recv c g = (Inl e, g1)"
      "res = Inr (Closed, close_conn E c (Some u) (publish E 1 SubjectUserPresence (UserPresenceEvent u False) g1))"
    | (blank) dat g1 where "recv c g = (Inr dat, g1)" "res = Inr (InRoom u i rn, g1)"
    | (shows_help) dat g1 where "recv c g = (Inr dat, g1)" "res = Inr (InRoom u i rn, say c commands g1)"
    | (join) dat g1 args where "recv c g = (Inr dat, g1)" "cmd_join E c u i rn args g1 = res"
    | (leave) dat g1 where "recv c g = (Inr dat, g1)" "res = Inr (cmd_leave E c u i rn g1)"
    | (rooms) dat g1 where "recv c g = (Inr dat, g1)"
      "res = Inr (InRoom u i rn, g1\<lparr>gw_net := snd (rt_PrintRooms (e_ord E) (Some c) (gw_router g1) (gw_net g1))\<rparr>)"
    | (who) dat g1 where "recv c g = (Inr dat, g1)" "res = map_sum id (Pair (InRoom u i rn)) (cmd_who E c g1)"
    | (message) dat g1 msg where "recv c g = (Inr dat, g1)" "res = map_sum id (Pair (InRoom u i rn)) (cmd_message E c u i rn msg g1)"
proof (cases "recv c g")
  case (Pair r g1)
  show thesis
  proof (cases r)
    case (Inl e)
    with assms Pair show ?thesis by (intro closed [of e g1]) (auto simp: runCommandLoop_step_def Let_def)
  next
    case (Inr dat)
    note r = Pair [unfolded Inr]
    show ?thesis
    proof (cases "Fields (TrimSpace dat)")
      case Nil
      with assms r blank show ?thesis by (auto simp: runCommandLoop_step_def Let_def)
    next
      case (Cons cmd args)
      note eq = command_step [OF r Cons, of E u i rn, unfolded assms]
      consider (a) "cmd = ''/help''" | (b) "cmd = ''/join''" | (c) "cmd = ''/leave''" | (d) "cmd = ''/rooms''"
        | (e) "cmd = ''/who''"
        | (f) "cmd \<noteq> ''/help''" "cmd \<noteq> ''/join''" "cmd \<noteq> ''/leave''" "cmd \<noteq> ''/rooms''" "cmd \<noteq> ''/who''" by metis
      then show ?thesis
      proof cases
        case a from eq show ?thesis unfolding a by (intro shows_help [OF r]) simp
      next
        case b from eq show ?thesis unfolding b by (intro join [OF r]) simp
      next
        case c from eq show ?thesis unfolding c by (intro leave [OF r]) simp
      next
        case d from eq show ?thesis unfolding d by (intro rooms [OF r]) simp
      next
        case e from eq show ?thesis unfolding e by (intro who [OF r]) simp
      next
        case f
        from eq have "res = map_sum id (Pair (InRoom u i rn)) (cmd_message E c u i rn (TrimSpace dat) g1)" by (simp only: f if_False)
        then show ?thesis by (rule message [OF r])
      qed
    qed
  qed
qed

lemma same_accounts_recv: "recv c g = (r, g1) \<Longrightarrow> same_accounts g1 g' \<Longrightarrow> same_accounts g g'"
  by (rule same_accounts_trans [OF same_accounts_net [OF same_but_net_recv]])

lemma same_accounts_command:
  "runCommandLoop_step E c u i rn g = Inr (pc, g') \<Longrightarrow> same_accounts g g' \<and> (pc = Closed \<or> (\<exists>rn'. pc = InRoom u i rn'))"
  "runCommandLoop_step E c u i rn g = Inl g' \<Longrightarrow> same_accounts g g'"
proof -
  have "case res of Inl g' \<Rightarrow> same_accounts g g' | Inr (pc, g') \<Rightarrow> same_accounts g g' \<and> (pc = Closed \<or> (\<exists>rn'. pc = InRoom u i rn'))"
    if "runCommandLoop_step E c u i rn g = res" for res
    using that
  proof (cases rule: command_cases)
    case (join dat g1 args)
    then show ?thesis
      by (cases res) (auto dest: same_accounts_cmd_join intro: same_accounts_recv)
  next
    case (leave dat g1)
    with same_accounts_cmd_leave [of g1 E c u i rn] show ?thesis
      by (cases "cmd_leave E c u i rn g1") (auto intro: same_accounts_recv)
  next
    case (who dat g1)
    then show ?thesis
      by (cases "cmd_who E c g1") (auto simp: cmd_who_def split: sum.splits intro: same_accounts_recv same_accounts_basics same_accounts_refl)
  next
    case (message dat g1 msg)
    then show ?thesis
      by (cases "cmd_message E c u i rn msg g1") (auto intro: same_accounts_recv same_accounts_cmd_message)
  qed (auto intro!: same_accounts_chain intro: same_accounts_recv same_accounts_refl)
  then show "runCommandLoop_step E c u i rn g = Inr (pc, g') \<Longrightarrow> same_accounts g g' \<and> (pc = Closed \<or> (\<exists>rn'. pc = InRoom u i rn'))"
    "runCommandLoop_step E c u i rn g = Inl g' \<Longrightarrow> same_accounts g g'" by fastforce+
qed

lemma auth_rpc_ok:
  assumes E: "legal_env uuid sign parse E" and "acc g"
    and h: "\<And>call as db res st'. legal_call uuid sign parse call \<Longrightarrow> auth_ok (as, db) \<Longrightarrow> h call (as, db) = (res, st') \<Longrightarrow>
      auth_post (case res of Inl e \<Rightarrow> None | Inr r \<Rightarrow> Some r) db st'"
    and "auth_rpc E h g = (res, g')"
  shows "acc g' \<and> keeps_users (gw_db g) (gw_db g') \<and>
    (\<forall>r. res = Inr r \<longrightarrow> account (gw_db g') (resp_Username r) (resp_UserId r))"
proof -
  let ?call = "\<lambda>i. (pg_user_repo (e_uuid E) (e_ts E) (e_sql E i), e_auth E i)"
  let ?fn = "\<lambda>i. rpc (e_rpc E i) (h (?call i))"
  let ?I = "\<lambda>st. auth_ok st \<and> keeps_users (gw_db g) (snd st)"
  have call: "legal_call uuid sign parse (?call i)" for i
    using E by (auto simp: legal_env_def legal_call_def)
  have post: "?I (snd (h (?call i) st)) \<and>
      (\<forall>r. fst (h (?call i) st) = Inr r \<longrightarrow> account (snd (snd (h (?call i) st))) (resp_Username r) (resp_UserId r))"
    if "?I st" for i st
  proof -
    obtain as db where st: "st = (as, db)" by fastforce
    obtain r st1 where r: "h (?call i) st = (r, st1)" by (rule prod.exhaust)
    from h [OF call _ r [unfolded st]] that st have "auth_post (case r of Inl e \<Rightarrow> None | Inr r \<Rightarrow> Some r) db st1" by simp
    with that r st show ?thesis by (auto simp: auth_post_def intro: keeps_users_trans)
  qed
  obtain sleeps as db where retry: "retry_from 1 ?fn 3 1000000000 (gw_auth g, gw_db g) = (res, sleeps, (as, db))"
    and g': "g' = g\<lparr>gw_auth := as, gw_db := db\<rparr>"
    using assms(4) by (auto simp: auth_rpc_def callWithRetry_def split: prod.splits)
  have "?I (as, db) \<and> (\<forall>r. res = Inr r \<longrightarrow> account (snd (as, db)) (resp_Username r) (resp_UserId r))"
  proof (rule retry_from_inv [where I = ?I and fn = ?fn and P = "\<lambda>r st. account (snd st) (resp_Username r) (resp_UserId r)", OF _ _ _ retry])
    show "?I (snd (?fn i st))" if "?I st" for i st
      using post [OF that, of i] that by (cases "e_rpc E i") (simp_all add: rpc_def)
    show "account (snd st') (resp_Username r) (resp_UserId r)" if "?I st" "?fn i st = (Inr r, st')" for i st r st'
      using post [OF that(1), of i] that(2) by (cases "e_rpc E i") (auto simp: rpc_def)
    show "?I (gw_auth g, gw_db g)" using assms(2) by (simp add: acc_def keeps_users_refl)
  qed
  then show ?thesis by (simp add: g' acc_def)
qed

lemma acc_auth_step:
  assumes E: "legal_env uuid sign parse E" and law: "jwt_law sign parse" and "acc g" and "in_auth pc0"
    and step: "runAuthLoop_step E c pc0 g = (pc, g')"
  shows "acc g' \<and> keeps_users (gw_db g) (gw_db g') \<and> session_ok (gw_db g') pc"
proof -
  obtain r g1 where r: "recv c g = (r, g1)" by fastforce
  have s1: "same_accounts g g1" by (rule same_accounts_net [OF same_but_net_recv [OF r]])
  then have acc1: "acc g1" using assms(3) same_accounts_acc by blast
  have db1: "gw_db g1 = gw_db g" using same_but_net_fields(6) [OF same_but_net_recv [OF r]] .
  have say_acc: "acc (say c t x) = acc x" "acc (sendError c t x) = acc x" for t x
    by (simp_all add: acc_def)
  note rpc_ok = auth_rpc_ok [OF E acc1]
  have quiet: "acc g' \<and> keeps_users (gw_db g) (gw_db g') \<and> session_ok (gw_db g') pc"
    if "same_accounts g g'" "session_ok (gw_db g') pc"
    using same_accounts_acc [OF that(1) assms(3)] that(2) by blast
  show ?thesis
  proof (cases r)
    case (Inl e)
    have "same_accounts g1 g' \<and> pc = Closed"
      using step r Inl by (auto simp: runAuthLoop_step_def intro!: same_accounts_chain same_accounts_refl)
    then show ?thesis using s1 by (intro quiet) (auto intro: same_accounts_trans)
  next
    case (Inr dat)
    have menu: "same_accounts x (snd (auth_menu E c dat x)) \<and> session_ok db (fst (auth_menu E c dat x))" for x db
      by (auto simp: auth_menu_def Let_def split: prod.splits intro!: same_accounts_chain same_accounts_refl)
    show ?thesis
    proof (cases pc0)
      case AuthMenu
      have "auth_menu E c dat g1 = (pc, g')" using step r Inr AuthMenu by (simp add: runAuthLoop_step_def)
      with menu [of g1 "gw_db g'"] have "same_accounts g1 g'" "session_ok (gw_db g') pc" by simp_all
      then show ?thesis using s1 by (intro quiet) (auto intro: same_accounts_trans)
    next
      case (RegisterPassword u)
      obtain res g2 where a: "auth_rpc E (\<lambda>call. grpc_Register authService call u dat) g1 = (res, g2)" by fastforce
      from rpc_ok [OF grpc_Register_ok [OF _ law] a] step r Inr RegisterPassword a
      show ?thesis by (auto simp: runAuthLoop_step_def auth_register_def say_acc db1 split: sum.splits)
    next
      case (LoginPassword u)
      obtain res g2 where a: "auth_rpc E (\<lambda>call. grpc_Login authService call u dat) g1 = (res, g2)" by fastforce
      from rpc_ok [OF grpc_Login_ok [OF _ law] a] step r Inr LoginPassword a
      show ?thesis by (auto simp: runAuthLoop_step_def auth_login_def say_acc db1 split: sum.splits if_splits)
    next
      case RefreshPrompt
      obtain res g2 where a: "auth_rpc E (\<lambda>call. grpc_Refresh authService call dat) g1 = (res, g2)" by fastforce
      from rpc_ok [OF grpc_Refresh_ok [OF _ law] a] step r Inr RefreshPrompt a
      show ?thesis by (auto simp: runAuthLoop_step_def auth_refresh_def say_acc db1 split: sum.splits)
    next
      case RegisterName
      with step r Inr s1 show ?thesis
        by (intro quiet) (auto simp: runAuthLoop_step_def intro!: same_accounts_chain)
    next
      case LoginName
      with step r Inr s1 show ?thesis
        by (intro quiet) (auto simp: runAuthLoop_step_def intro!: same_accounts_chain)
    qed (use assms(4) in simp_all)
  qed
qed

definition authentic :: "system \<Rightarrow> bool" where
  "authentic s \<longleftrightarrow> acc (sys_gw s) \<and> (\<forall>c. session_ok (gw_db (sys_gw s)) (sess s c))"

lemma authentic_goto:
  assumes "authentic s" and "acc (snd r)" and "keeps_users (gw_db (sys_gw s)) (gw_db (snd r))" and "session_ok (gw_db (snd r)) (fst r)"
  shows "authentic (goto c r s)"
  using assms by (auto simp: authentic_def goto_def intro: keeps_session)

lemma authentic_update:
  assumes "authentic s" and "same_accounts (sys_gw s) g"
  shows "authentic (s\<lparr>sys_gw := g\<rparr>)"
  using same_accounts_acc [OF assms(2)] assms(1) by (auto simp: authentic_def intro: keeps_session)

lemma authentic_crash:
  assumes "authentic s" and "same_accounts (sys_gw s) g"
  shows "authentic (crash g s)"
  using same_accounts_acc [OF assms(2)] assms(1) by (auto simp: authentic_def acc_def intro: keeps_session)

lemma authentic_step:
  assumes "sys_step (legal_env uuid sign parse) s s'" and "jwt_law sign parse" and "authentic s"
  shows "authentic s'"
  using assms(1)
proof cases
  case (accept c)
  have "same_accounts (sys_gw s) (snd (accept_conn c (sys_gw s))) \<and> session_ok db (fst (accept_conn c (sys_gw s)))" for db
    by (auto simp: accept_conn_def same_accounts_def split: prod.splits option.splits)
  with assms(3) same_accounts_acc show ?thesis
    unfolding accept(1) by (intro authentic_goto) (auto simp: authentic_def)
next
  case (auth c E)
  obtain pc g where st: "runAuthLoop_step E c (sess s c) (sys_gw s) = (pc, g)" by fastforce
  from acc_auth_step [OF auth(4) assms(2) _ auth(3) st] assms(3) show ?thesis
    unfolding auth(1) st by (intro authentic_goto) (auto simp: authentic_def)
next
  case (present c u i)
  then have "account (gw_db (sys_gw s)) u i" using assms(3) by (auto simp: authentic_def) (metis session_ok.simps(1))
  then show ?thesis unfolding present(1) using assms(3)
    by (intro authentic_goto) (auto simp: presence_add_def authentic_def acc_def keeps_users_refl)
next
  case (enter c u i E r)
  obtain pc g where r: "r = (pc, g)" by fastforce
  have "account (gw_db (sys_gw s)) u i" using assms(3) enter(3) by (metis authentic_def session_ok.simps(2))
  moreover note same_accounts_enter(1) [OF enter(5) [unfolded r]]
  ultimately show ?thesis unfolding enter(1) r using assms(3) same_accounts_acc [of "sys_gw s" g] keeps_account
    by (intro authentic_goto) (auto simp: authentic_def)
next
  case (command c u i rn E r)
  obtain pc g where r: "r = (pc, g)" by fastforce
  have "account (gw_db (sys_gw s)) u i" using assms(3) command(3) by (metis authentic_def session_ok.simps(3))
  moreover note same_accounts_command(1) [OF command(5) [unfolded r]]
  ultimately show ?thesis unfolding command(1) r using assms(3) same_accounts_acc [of "sys_gw s" g] keeps_account
    by (intro authentic_goto) (auto simp: authentic_def)
next
  case (panic_enter c u i E g)
  show ?thesis unfolding panic_enter(1) by (rule authentic_crash [OF assms(3) same_accounts_enter(2) [OF panic_enter(5)]])
next
  case (panic_command c u i rn E g)
  show ?thesis unfolding panic_command(1) by (rule authentic_crash [OF assms(3) same_accounts_command(2) [OF panic_command(5)]])
next
  case (network net)
  show ?thesis unfolding network using assms(3) by (intro authentic_update same_accounts_fields) simp_all
next
  case (deliver unmarshal dat)
  show ?thesis unfolding deliver using assms(3) by (intro authentic_update same_accounts_fields) simp_all
next
  case (cleanup ago retention runs)
  show ?thesis unfolding cleanup using assms(3)
    by (intro authentic_update) (simp_all add: same_accounts_def cleanup_users cleanup_worker_inv)
qed

section \<open>Live connections\<close>

fun is_open :: "session \<Rightarrow> bool" where
  "is_open Absent = False"
| "is_open Closed = False"
| "is_open _ = True"

fun present_as :: "session \<Rightarrow> string option" where
  "present_as (Present u i) = Some u"
| "present_as (InRoom u i rn) = Some u"
| "present_as _ = None"

fun in_rooms_as :: "session \<Rightarrow> string option" where
  "in_rooms_as (InRoom u i rn) = Some u"
| "in_rooms_as _ = None"

text \<open>The pairs of a user name and a connection that the router holds, for rooms or direct messages.\<close>

definition router_conns :: "router \<Rightarrow> (string \<times> conn) set" where
  "router_conns rt = {(u, c). (\<exists>r e. fmlookup (rt_rooms rt) r = Some e \<and> fmlookup (Members e) u = Some c) \<or>
     fmlookup (rt_users rt) u = Some c}"

lemma router_conns_join:
  assumes "rt_JoinRoom R i t r u (Some c) (rt, s) = (res, rt', s')"
  shows "router_conns rt' \<subseteq> insert (u, c) (router_conns rt)"
  using assms by (cases rule: rt_join_cases) (fastforce simp: router_conns_def split: if_splits)+

lemma router_conns_disconnect:
  assumes "iteration_order ord"
  shows "router_conns (rt_Disconnect ord u rt) \<subseteq> {p \<in> router_conns rt. fst p \<noteq> u}"
proof
  fix p assume p: "p \<in> router_conns (rt_Disconnect ord u rt)"
  obtain v c where v: "p = (v, c)" by fastforce
  from p v consider
      (room) r e where "fmlookup (rt_rooms (rt_Disconnect ord u rt)) r = Some e" "fmlookup (Members e) v = Some c"
    | (user) "fmlookup (rt_users (rt_Disconnect ord u rt)) v = Some c"
    by (auto simp: router_conns_def)
  then show "p \<in> {p \<in> router_conns rt. fst p \<noteq> u}"
  proof cases
    case room
    then obtain e0 where "fmlookup (rt_rooms rt) r = Some e0" "e = e0\<lparr>Members := fmdrop u (Members e0)\<rparr>"
      by (auto simp: rt_disconnect_lookup [OF assms] split: option.splits if_splits)
    with room v show ?thesis by (auto simp: router_conns_def split: if_splits)
  next
    case user
    with v show ?thesis by (auto simp: router_conns_def rt_Disconnect_def split: if_splits)
  qed
qed

text \<open>A handler of connection \<open>c\<close> and user \<open>u\<close> registers that pair with the router and no other.\<close>

definition own :: "string \<Rightarrow> conn \<Rightarrow> gateway \<Rightarrow> gateway \<Rightarrow> bool" where
  "own u c g g' \<longleftrightarrow> gw_registry g' = gw_registry g \<and> gw_presence g' = gw_presence g \<and>
     router_conns (gw_router g') \<subseteq> insert (u, c) (router_conns (gw_router g))"

lemma own_refl: "own u c g g"
  by (auto simp: own_def)

lemma own_trans: "own u c g g' \<Longrightarrow> own u c g' g'' \<Longrightarrow> own u c g g''"
  by (auto simp: own_def)

lemma own_net: "same_but_net g g' \<Longrightarrow> own u c g g'"
  by (auto simp: own_def same_but_net_def)

lemma own_fields: "gw_registry g' = gw_registry g \<Longrightarrow> gw_presence g' = gw_presence g \<Longrightarrow> gw_router g' = gw_router g \<Longrightarrow> own u c g g'"
  by (auto simp: own_def)

lemma own_remote:
  "own u c g (remote_JoinRoom E i rn u' g)" "own u c g (remote_LeaveRoom E i rn u' g)"
  by (rule own_fields; simp add: remote_JoinRoom_def remote_LeaveRoom_def split: prod.splits)+

lemma own_local_join: "own u c g (local_JoinRoom E i rn u c g)"
proof -
  obtain res rt db where j: "rt_JoinRoom (pg_room_repo (e_uuid E) (e_ts E) (e_sql E i)) (e_id E i) (e_now E) rn u (Some c)
      (gw_router g, gw_db g) = (res, rt, db)" by (metis prod_cases3)
  from router_conns_join [OF j] j show ?thesis by (simp add: own_def local_JoinRoom_def)
qed

lemma own_updates:
  "own u c g (g\<lparr>gw_msgLimiter := l\<rparr>)" "own u c g (g\<lparr>gw_net := n\<rparr>)" "own u c g (g\<lparr>gw_db := db\<rparr>)"
  by (rule own_fields; simp)+

lemmas own_basics = own_net [OF same_but_net_say] own_net [OF same_but_net_publish] own_net [OF same_but_net_broadcast]
  own_net [OF same_but_net_history] own_remote own_local_join own_updates

lemmas own_chain = own_basics [THEN [2] own_trans]

lemma own_cmd_join: "cmd_join E c u i rn args g = Inr (pc, g') \<Longrightarrow> own u c g g'"
  unfolding cmd_join_def Let_def
  by (auto split: if_splits option.splits sum.splits intro!: own_chain own_refl)

lemma own_cmd_leave: "own u c g (snd (cmd_leave E c u i rn g))"
  unfolding cmd_leave_def Let_def by (auto intro!: own_chain own_refl)

lemma own_cmd_message:
  assumes "cmd_message E c u i rn msg g = Inr g'"
  shows "own u c g g'"
proof -
  obtain ok l where a: "BucketRegistry_Allow (e_clk_msg E) u (gw_msgLimiter g) = (ok, l)" by fastforce
  obtain err g1 where b: "broadcast E rn (NewMessage (e_id E 1) (e_now E) u msg) (g\<lparr>gw_msgLimiter := l\<rparr>) = (err, g1)" by fastforce
  have g1: "g1 = snd (broadcast E rn (NewMessage (e_id E 1) (e_now E) u msg) (g\<lparr>gw_msgLimiter := l\<rparr>))" using b by simp
  have "own u c g g1" unfolding g1 by (intro own_chain own_refl)
  then show ?thesis
    using assms a b unfolding cmd_message_def Let_def
    by (auto split: if_splits sum.splits intro!: own_chain intro: own_refl)
qed

lemma own_enter: "runCommandLoop_enter E c u i g = Inr (pc, g') \<Longrightarrow> own u c g g'"
  unfolding runCommandLoop_enter_def Let_def by (auto split: sum.splits intro!: own_chain own_refl)

lemma own_command:
  assumes "runCommandLoop_step E c u i rn g = Inr (pc, g')"
  obtains (closed) g1 where "pc = Closed" "same_but_net g g1" "g' = close_conn E c (Some u) g1"
    | (stays) rn' where "pc = InRoom u i rn'" "own u c g g'"
proof -
  have recv: "own u c g1 x \<Longrightarrow> recv c g = (r, g1) \<Longrightarrow> own u c g x" for r g1 x
    using own_net [OF same_but_net_recv] own_trans by blast
  show thesis
    using assms
  proof (cases rule: command_cases)
    case (closed e g1)
    then show ?thesis
      by (intro that(1) [of "publish E 1 SubjectUserPresence (UserPresenceEvent u False) g1"])
        (auto intro: same_but_net_trans same_but_net_publish same_but_net_recv)
  next
    case (join dat g1 args)
    then show ?thesis
      using own_cmd_join [OF join(2)] same_accounts_cmd_join(1) [OF join(2)] recv that(2) by blast
  next
    case (leave dat g1)
    then show ?thesis
      using own_cmd_leave [of u c g1 E i rn] same_accounts_cmd_leave [of g1 E c u i rn] recv that(2) by (metis Inr_inject fst_conv snd_conv)
  next
    case (who dat g1)
    then show ?thesis
      by (cases "cmd_who E c g1") (auto simp: cmd_who_def split: sum.splits intro!: that(2) elim!: recv [rotated] intro: own_basics)
  next
    case (message dat g1 msg)
    then show ?thesis
      by (cases "cmd_message E c u i rn msg g1") (auto intro!: that(2) elim!: recv [rotated] dest: own_cmd_message)
  qed (auto intro!: that(2) elim!: recv [rotated] intro: own_refl own_basics)
qed

definition live :: "gateway \<Rightarrow> (conn \<Rightarrow> session) \<Rightarrow> bool" where
  "live g ss \<longleftrightarrow>
     (\<forall>c. c |\<in>| fmdom (reg_conns (gw_registry g)) \<longleftrightarrow> is_open (ss c)) \<and>
     fcard (fmdom (reg_conns (gw_registry g))) \<le> 100 \<and>
     (\<forall>u c. fmlookup (ps_conns (gw_presence g)) u = Some c \<longrightarrow> present_as (ss c) = Some u) \<and>
     (\<forall>u c. (u, c) \<in> router_conns (gw_router g) \<longrightarrow> in_rooms_as (ss c) = Some u)"

lemma in_rooms_present: "in_rooms_as pc = Some u \<Longrightarrow> present_as pc = Some u \<and> is_open pc"
  by (cases pc) auto

lemma live_fields:
  "live g ss \<Longrightarrow> gw_registry g' = gw_registry g \<Longrightarrow> gw_presence g' = gw_presence g \<Longrightarrow> gw_router g' = gw_router g \<Longrightarrow> live g' ss"
  by (simp add: live_def)

lemma liveD:
  assumes "live g ss"
  shows "c |\<in>| fmdom (reg_conns (gw_registry g)) \<longleftrightarrow> is_open (ss c)"
    and "fcard (fmdom (reg_conns (gw_registry g))) \<le> 100"
    and "fmlookup (ps_conns (gw_presence g)) u = Some c \<Longrightarrow> present_as (ss c) = Some u"
    and "(u, c) \<in> router_conns (gw_router g) \<Longrightarrow> in_rooms_as (ss c) = Some u"
  using assms unfolding live_def by blast+

text \<open>A step from an unauthenticated session to another open one that leaves the stores alone.\<close>

lemma live_quiet:
  assumes "live g ss" and "gw_registry g' = gw_registry g" "gw_presence g' = gw_presence g" "gw_router g' = gw_router g"
    and "present_as (ss c) = None" and "is_open (ss c)" "is_open pc"
  shows "live g' (ss(c := pc))"
proof -
  note old = liveD [OF assms(1)]
  have "d \<noteq> c" if "fmlookup (ps_conns (gw_presence g)) v = Some d" for v d
    using old(3) [OF that] assms(5) by auto
  moreover have "d \<noteq> c" if "(v, d) \<in> router_conns (gw_router g)" for v d
    using in_rooms_present [OF old(4) [OF that]] assms(5) by auto
  ultimately show ?thesis
    using old assms(6,7) unfolding live_def assms(2-4) by auto
qed

lemma live_own:
  assumes "live g ss" and "own u c g g'" and "present_as (ss c) = Some u"
  shows "live g' (ss(c := InRoom u i rn))"
proof -
  note old = liveD [OF assms(1)]
  have g': "gw_registry g' = gw_registry g" "gw_presence g' = gw_presence g"
    "router_conns (gw_router g') \<subseteq> insert (u, c) (router_conns (gw_router g))" using assms(2) by (auto simp: own_def)
  have "v = u" if "fmlookup (ps_conns (gw_presence g)) v = Some c" for v
    using old(3) [OF that] assms(3) by simp
  moreover have "v = u" if "(v, c) \<in> router_conns (gw_router g)" for v
    using in_rooms_present [OF old(4) [OF that]] assms(3) by simp
  moreover have "is_open (ss c)" using assms(3) by (cases "ss c") auto
  ultimately show ?thesis
    using old g'(3) unfolding live_def g'(1,2) by (auto dest!: subsetD)
qed

lemma live_close:
  assumes "live g ss" and "iteration_order (e_ord E)" and "same_but_net g g1"
    and "present_as (ss c) = None \<and> w = None \<or> in_rooms_as (ss c) = Some u \<and> w = Some u"
  shows "live (close_conn E c w g1) (ss(c := Closed))"
proof -
  note g1 = same_but_net_fields [OF assms(3)]
  have reg: "fmdom (reg_conns (gw_registry (close_conn E c w g1))) = fmdom (reg_conns (gw_registry g)) |-| {|c|}"
    using g1 by (cases w) (simp_all add: close_conn_def Let_def Registry_Remove_def)
  have card: "fcard (fmdom (reg_conns (gw_registry g)) |-| {|c|}) \<le> fcard (fmdom (reg_conns (gw_registry g)))"
    by (rule fcard_mono) auto
  have pres: "fmlookup (ps_conns (gw_presence (close_conn E c w g1))) v =
      (if fmlookup (ps_conns (gw_presence g)) v = Some c then None else fmlookup (ps_conns (gw_presence g)) v)" for v
    using g1 by (cases w) (simp_all add: close_conn_def Let_def ps_Remove_lookup [OF assms(2)])
  have rt: "in_rooms_as (ss d) = Some v \<and> d \<noteq> c" if "(v, d) \<in> router_conns (gw_router (close_conn E c w g1))" for v d
  proof (cases w)
    case None
    then have "(v, d) \<in> router_conns (gw_router g)" using that g1 by (simp add: close_conn_def Let_def)
    then have "in_rooms_as (ss d) = Some v" using assms(1) by (simp add: live_def)
    moreover have "in_rooms_as (ss c) = None"
      using assms(4) None in_rooms_present [of "ss c"] by (cases "in_rooms_as (ss c)") auto
    ultimately show ?thesis by auto
  next
    case (Some x)
    then have "(v, d) \<in> {p \<in> router_conns (gw_router g). fst p \<noteq> x}"
      using that g1 router_conns_disconnect [OF assms(2), of x "gw_router g"] by (auto simp: close_conn_def Let_def)
    then have "in_rooms_as (ss d) = Some v" "v \<noteq> x" using assms(1) by (auto simp: live_def)
    with assms(4) Some show ?thesis by auto
  qed
  show ?thesis
    using assms(1) reg card rt unfolding live_def by (auto simp: pres)
qed

lemma auth_step_cases:
  assumes "runAuthLoop_step E c pc0 g = (pc, g')" and "in_auth pc0"
  obtains (lost) g1 where "pc = Closed" "same_but_net g g1" "g' = close_conn E c None g1"
    | (goes_on) "is_open pc" "gw_registry g' = gw_registry g" "gw_presence g' = gw_presence g" "gw_router g' = gw_router g"
proof -
  obtain r g1 where r: "recv c g = (r, g1)" by fastforce
  note s1 = same_but_net_recv [OF r]
  note f1 = same_but_net_fields [OF s1]
  show thesis
  proof (cases r)
    case (Inl e)
    have "same_but_net g (say c (error_text (Wrap ''connection lost during auth'' e)) g1)"
      using s1 same_but_net_say by (rule same_but_net_trans)
    with assms(1) r Inl show ?thesis by (intro lost) (auto simp: runAuthLoop_step_def)
  next
    case (Inr dat)
    have rpc: "gw_registry g2 = gw_registry g1 \<and> gw_presence g2 = gw_presence g1 \<and> gw_router g2 = gw_router g1"
      if "auth_rpc E h g1 = (res, g2)"
      for h :: "db_state user_repo \<times> auth_env \<Rightarrow> auth_service \<times> db_state \<Rightarrow> (go_error + ('z session_response_scheme)) \<times> auth_service \<times> db_state"
        and res g2
      using that by (auto simp: auth_rpc_def split: prod.splits)
    show ?thesis
      using assms r Inr f1
      by (intro goes_on; cases pc0)
        (auto simp: runAuthLoop_step_def auth_menu_def auth_register_def auth_login_def auth_refresh_def Let_def auth_rpc_def
          split: prod.splits sum.splits if_splits)
  qed
qed

lemma live_step:
  assumes "sys_step (legal_env uuid sign parse) s s'" and "live (sys_gw s) (sess s)"
  shows "live (sys_gw s') (sess s')"
  using assms(1)
proof cases
  case (accept c)
  note old = liveD [OF assms(2)]
  show ?thesis
  proof (cases "fcard (fmdom (reg_conns (gw_registry (sys_gw s)))) \<ge> 100")
    case True
    then show ?thesis
      using accept(3) assms(2) unfolding accept(1) goto_def accept_conn_def Registry_Add_def
      by (auto simp: live_def) (metis in_rooms_as.simps(2) in_rooms_present is_open.simps(1) option.distinct(1) present_as.simps(3))+
  next
    case False
    have "d \<noteq> c" if "fmlookup (ps_conns (gw_presence (sys_gw s))) v = Some d" for v d
      using old(3) [OF that] accept(3) by auto
    moreover have "d \<noteq> c" if "(v, d) \<in> router_conns (gw_router (sys_gw s))" for v d
      using old(4) [OF that] accept(3) by auto
    ultimately show ?thesis
      using False old unfolding accept(1) goto_def accept_conn_def Registry_Add_def
      by (auto simp: live_def fcard_finsert_if)
  qed
next
  case (auth c E)
  obtain pc g where st: "runAuthLoop_step E c (sess s c) (sys_gw s) = (pc, g)" by fastforce
  have ord: "iteration_order (e_ord E)" using auth(4) by (simp add: legal_env_def)
  have none: "present_as (sess s c) = None" "is_open (sess s c)" using auth(3) by (cases "sess s c"; simp)+
  from st auth(3) show ?thesis
  proof (cases rule: auth_step_cases)
    case (lost g1)
    with live_close [OF assms(2) ord lost(2), of c None] none show ?thesis
      unfolding auth(1) st by (simp add: goto_def)
  next
    case goes_on
    with live_quiet [OF assms(2) goes_on(2-4) none goes_on(1)] show ?thesis
      unfolding auth(1) st by (simp add: goto_def)
  qed
next
  case (present c u i)
  note old = liveD [OF assms(2)]
  have "v \<noteq> d \<longrightarrow> True" for v d :: conn by simp
  have "d \<noteq> c" if "fmlookup (ps_conns (gw_presence (sys_gw s))) v = Some d" for v d
    using old(3) [OF that] present(3) by auto
  moreover have "d \<noteq> c" if "(v, d) \<in> router_conns (gw_router (sys_gw s))" for v d
    using old(4) [OF that] present(3) by auto
  moreover have "is_open (sess s c)" using present(3) by simp
  ultimately show ?thesis
    using old unfolding present(1) goto_def presence_add_def ps_Add_def live_def by auto
next
  case (enter c u i E r)
  obtain pc g where r: "r = (pc, g)" by fastforce
  have "pc = InRoom u i defaultRoom" using same_accounts_enter enter(5) r by blast
  moreover have "own u c (sys_gw s) g" using own_enter enter(5) r by blast
  moreover have "present_as (sess s c) = Some u" using enter(3) by simp
  ultimately show ?thesis unfolding enter(1) r using live_own [OF assms(2)] by (simp add: goto_def)
next
  case (command c u i rn E r)
  obtain pc g where r: "r = (pc, g)" by fastforce
  have ord: "iteration_order (e_ord E)" using command(4) by (simp add: legal_env_def)
  have as: "present_as (sess s c) = Some u" "in_rooms_as (sess s c) = Some u" using command(3) by simp_all
  from command(5) [unfolded r] show ?thesis
  proof (cases rule: own_command)
    case (closed g1)
    with live_close [OF assms(2) ord closed(2), of c "Some u" u] as show ?thesis
      unfolding command(1) r by (simp add: goto_def)
  next
    case (stays rn')
    with live_own [OF assms(2) stays(2) as(1)] show ?thesis
      unfolding command(1) r by (simp add: goto_def)
  qed
qed (use assms(2) in \<open>auto intro: live_fields\<close>)

lemma live_init: "live (sys_gw (sys_init sec db net)) (sess (sys_init sec db net))"
  by (simp add: live_def sys_init_def start_gateway_def NewConnRegistry_def NewInMemoryPresenceStore_def
      NewInMemoryMessageRouter_def router_conns_def fcard.rep_eq)

lemma authentic_init: "db_inv db \<Longrightarrow> authentic (sys_init sec db net)"
  by (simp add: authentic_def acc_def auth_ok_def sys_init_def start_gateway_def NewAuthService_def)

section \<open>A run of the system\<close>

text \<open>A client registers, up to the end of the auth loop: a reachable state for the witnesses.\<close>

text \<open>A serialisation of events for runs: the sign and the name for presence.\<close>

fun run_marshal :: "event \<Rightarrow> go_error + string" where
  "run_marshal (UserPresenceEvent u b) = Inr ((if b then ''+'' else ''-'') @ u)"
| "run_marshal _ = Inr ''{}''"

definition run_env :: env where
  "run_env = \<lparr>e_clk_reg = (Time 0, Time 0), e_clk_msg = (Time 0, Time 0, Time 0), e_now = Time 0, e_id = (\<lambda>_. ''r1''),
     e_rpc = (\<lambda>_. Answered), e_sql = (\<lambda>_. Runs), e_pub = (\<lambda>_. None), e_auth = (\<lambda>_. witness_env),
     e_ord = sorted_list_of_fset, e_host = (\<lambda>_. ''10.0.0.1''), e_uuid = Some, e_ts = id, e_marshal = run_marshal, e_srt = (\<lambda>ms. ms)\<rparr>"

abbreviation run_sign :: "claims \<Rightarrow> string \<Rightarrow> go_error + string" where
  "run_sign \<equiv> one_token_sign (access_claims test_env ''alice'' ''u1'') ''key''"

abbreviation run_parse :: "int \<Rightarrow> string \<Rightarrow> (jwt_token \<Rightarrow> go_error + string) \<Rightarrow> go_error + jwt_token" where
  "run_parse \<equiv> one_token_parse (access_claims test_env ''alice'' ''u1'') ''key''"

lemma run_env_legal: "legal_env Some run_sign run_parse run_env"
  unfolding legal_env_def by (simp add: run_env_def iteration_order_sorted witness_env_def) (simp add: test_env_def)

lemma recv_encode:
  "inb (gw_net g c) = encode d @ rest \<Longrightarrow> fits d \<Longrightarrow>
   \<exists>g'. recv c g = (Inr d, g') \<and> same_but_net g g' \<and> inb (gw_net g' c) = rest"
  by (auto simp: recv_def ReadMessage_encode same_but_net_def)

lemma inb_say [simp]: "inb (gw_net (say c t g) d) = inb (gw_net g d)"
  using WriteMessage_frame by (simp add: say_def send_snd)

lemma run_crypto:
  "access_claims witness_env = access_claims test_env"
  "SignedString witness_env (access_claims test_env ''alice'' ''u1'') ''key'' = Inr ''h.c.s''"
  "CompareHashAndPassword witness_env ''bcrypt:pw'' ''pw'' = None" "rand_Read witness_env = Inr (replicate 32 (CHR ''x''))"
  "GenerateFromPassword witness_env ''pw'' = Inr ''bcrypt:pw''" "uuid_New witness_env = ''u1''" "time_Now witness_env = Time 0"
  by (simp add: access_claims_def witness_env_def fun_eq_iff)
    (simp add: witness_env_def one_token_sign_def, simp_all add: witness_env_def test_env_def)

text \<open>A login of the account \<open>alice\<close> at a service that signs with the key \<open>key\<close>.\<close>

lemma run_as_login:
  assumes "secret as = ''key''"
  shows "\<exists>r as'. as_Login (pg_user_repo Some id Runs) witness_env ''alice'' ''pw'' (as, alice_db) = (Inr (''h.c.s'', r), as', alice_db) \<and>
     as_Validate witness_env ''h.c.s'' as' = Inr (''alice'', ''u1'') \<and> secret as' = ''key''"
proof -
  have usr: "active_user alice_db ''alice'' = Some (NewUser ''u1'' (Time 0) ''alice'' ''bcrypt:pw'')"
    by (simp add: active_user_def alice_db_def NewUser_def)
  obtain r as' where login: "as_Login (pg_user_repo Some id Runs) witness_env ''alice'' ''pw'' (as, alice_db) =
     (Inr (''h.c.s'', r), as', alice_db)" and key: "secret as' = ''key''"
    by (simp add: as_Login_def pg_find usr run_crypto assms as_IssueRefreshToken_def Let_def NewUser_def)
  have "as_Validate witness_env ''h.c.s'' as' = Inr (''alice'', ''u1'')"
    by (rule validate_access [of witness_env run_parse])
      (simp_all add: key run_crypto, simp_all add: witness_env_def one_token_law test_env_def)
  with login key show ?thesis by blast
qed

lemma run_login:
  assumes "secret as = ''key''"
  shows "\<exists>as'. grpc_Login authService (pg_user_repo Some id Runs, witness_env) ''alice'' ''pw'' (as, alice_db) =
     (Inr \<lparr>resp_Username = ''alice'', resp_UserId = ''u1'', resp_Token = ''h.c.s''\<rparr>, as', alice_db) \<and> secret as' = ''key''"
  using run_as_login [OF assms] by (auto simp: grpc_Login_def authService_def)

lemma run_register:
  "\<exists>as'. grpc_Register authService (pg_user_repo Some id Runs, witness_env) ''alice'' ''pw'' (NewAuthService ''key'', empty_db) =
     (Inr \<lparr>resp_Username = ''alice'', resp_UserId = ''u1'', resp_Token = ''h.c.s''\<rparr>, as', alice_db)"
proof -
  have reg: "as_Register (pg_user_repo Some id Runs) witness_env ''alice'' ''pw'' (NewAuthService ''key'', empty_db) =
      (None, NewAuthService ''key'', alice_db)"
    by (simp add: as_Register_def as_Register_check_def as_Register_create_def pg_user_repo_def UserRepo_FindByUsername_def
        query_row_def UserRepo_Create_def exec_sql_Runs empty_db_def NewUser_def run_crypto ValidateUsername_def
        usernameRegex_def is_alnum_def alice_db_def)
  have "secret (NewAuthService ''key'') = ''key''" by (simp add: NewAuthService_def)
  from run_as_login [OF this] reg show ?thesis by (auto simp: grpc_Register_def authService_def)
qed

definition no_rooms :: "gateway \<Rightarrow> bool" where
  "no_rooms g \<longleftrightarrow> gw_rooms g = NewRoomStore \<and> gw_router g = NewInMemoryMessageRouter \<and> t_rooms (gw_db g) = []"

lemma run_reaches:
  assumes "L run_env"
  shows "\<exists>s. sys_reachable L s \<and> sess s 7 = Authenticated ''alice'' ''u1'' \<and> \<not> crashed s \<and> no_rooms (sys_gw s)"
proof -
  let ?net = "\<lambda>_. \<lparr>inb = encode ''/register'' @ encode ''alice'' @ encode ''pw'', rerr = EOF, outb = [], wcap = None\<rparr>"
  let ?s0 = "sys_init ''key'' empty_db ?net"
  note init = sys_init_def start_gateway_def
  have fits: "fits ''/register''" "fits ''alice''" "fits ''pw''" by (simp_all add: fits_def)
  obtain g1 where a1: "accept_conn 7 (sys_gw ?s0) = (AuthMenu, g1)" and inb1: "inb (gw_net g1 7) = encode ''/register'' @ encode ''alice'' @ encode ''pw''"
    and f1: "gw_auth g1 = NewAuthService ''key''" "gw_db g1 = empty_db" "gw_rooms g1 = NewRoomStore" "gw_router g1 = NewInMemoryMessageRouter" "gw_regLimiter g1 = NewRegistry 3 3600000000000"
    by (simp add: accept_conn_def Registry_Add_def init NewConnRegistry_def fcard.rep_eq)
  let ?s1 = "goto 7 (AuthMenu, g1) ?s0"
  have r1: "sys_reachable L ?s1"
    unfolding a1 [symmetric]
    by (rule sys_reachable.step [OF sys_reachable.start [OF empty_db_inv]]) (rule sys_step.accept; simp add: sys_init_def)
  obtain g1' where v1: "recv 7 g1 = (Inr ''/register'', g1')" "same_but_net g1 g1'" "inb (gw_net g1' 7) = encode ''alice'' @ encode ''pw''"
    using recv_encode [OF inb1 fits(1)] by blast
  have trim: "TrimSpace ''/register'' = ''/register''" by (rule TrimSpace_word) (simp add: is_word_def printable_def)
  obtain g2 where st2: "runAuthLoop_step run_env 7 AuthMenu g1 = (RegisterName, g2)" and inb2: "inb (gw_net g2 7) = encode ''alice'' @ encode ''pw''"
    and f2: "gw_auth g2 = NewAuthService ''key''" "gw_db g2 = empty_db" "gw_rooms g2 = NewRoomStore" "gw_router g2 = NewInMemoryMessageRouter"
    using v1 f1 trim by (auto simp: runAuthLoop_step_def auth_menu_def Registry_Allow_def NewRegistry_def run_env_def
        NewSlidingWindow_def sw_Allow_def Let_def same_but_net_def)
  let ?s2 = "goto 7 (RegisterName, g2) ?s1"
  have r2: "sys_reachable L ?s2"
    using sys_step.auth [of ?s1 7 L run_env] st2 assms
    by (intro sys_reachable.step [OF r1]) (simp add: goto_def sys_init_def)
  obtain g2' where v2: "recv 7 g2 = (Inr ''alice'', g2')" "same_but_net g2 g2'" "inb (gw_net g2' 7) = encode ''pw'' @ []"
    using recv_encode [OF inb2 fits(2)] by auto
  obtain g3 where st3: "runAuthLoop_step run_env 7 RegisterName g2 = (RegisterPassword ''alice'', g3)" and inb3: "inb (gw_net g3 7) = encode ''pw'' @ []"
    and f3: "gw_auth g3 = NewAuthService ''key''" "gw_db g3 = empty_db" "gw_rooms g3 = NewRoomStore" "gw_router g3 = NewInMemoryMessageRouter"
    using v2 f2 by (auto simp: runAuthLoop_step_def same_but_net_def)
  let ?s3 = "goto 7 (RegisterPassword ''alice'', g3) ?s2"
  have r3: "sys_reachable L ?s3"
    using sys_step.auth [of ?s2 7 L run_env] st3 assms
    by (intro sys_reachable.step [OF r2]) (simp add: goto_def sys_init_def)
  obtain g3' where v3: "recv 7 g3 = (Inr ''pw'', g3')" "same_but_net g3 g3'"
    using recv_encode [OF inb3 fits(3)] by blast
  obtain as' where reg: "grpc_Register authService (pg_user_repo Some id Runs, witness_env) ''alice'' ''pw'' (NewAuthService ''key'', empty_db) =
    (Inr \<lparr>resp_Username = ''alice'', resp_UserId = ''u1'', resp_Token = ''h.c.s''\<rparr>, as', alice_db)" using run_register by blast
  obtain g4 where st4: "runAuthLoop_step run_env 7 (RegisterPassword ''alice'') g3 = (Authenticated ''alice'' ''u1'', g4)"
    and f4: "no_rooms g4"
    using v3 f3 reg by (auto simp: runAuthLoop_step_def auth_register_def auth_rpc_def callWithRetry_def
        retry_from.simps rpc_def run_env_def same_but_net_def no_rooms_def alice_db_def empty_db_def)
  let ?s4 = "goto 7 (Authenticated ''alice'' ''u1'', g4) ?s3"
  have "sys_reachable L ?s4"
    using sys_step.auth [of ?s3 7 L run_env] st4 assms
    by (intro sys_reachable.step [OF r3]) (simp add: goto_def sys_init_def)
  moreover have "sess ?s4 7 = Authenticated ''alice'' ''u1''" "\<not> crashed ?s4" "no_rooms (sys_gw ?s4)"
    using f4 by (simp_all add: goto_def sys_init_def)
  ultimately show ?thesis by blast
qed

lemmas run_reaches_alice = run_reaches [where L = "legal_env Some run_sign run_parse", OF run_env_legal]

section \<open>Properties\<close>

text \<open>
  C1. Authentication end to end: in every state the system can reach, whatever the interleaving of
  connections and the faults of calls, statements and the network, a session past the auth loop
  carries the name and the ID of an account in the users table; and every refresh token the auth
  service holds belongs to an account.
\<close>

theorem sessions_authentic:
  assumes "sys_reachable (legal_env uuid sign parse) s" and "jwt_law sign parse"
  shows "(\<forall>c u i rn. sess s c \<in> {Authenticated u i, Present u i, InRoom u i rn} \<longrightarrow>
      (\<exists>usr \<in> set (t_users (gw_db (sys_gw s))). Username usr = u \<and> user_ID usr = i)) \<and>
    (\<forall>t u. fmlookup (refreshTokens (gw_auth (sys_gw s))) t = Some u \<longrightarrow>
      (\<exists>usr \<in> set (t_users (gw_db (sys_gw s))). Username usr = u)) \<and>
    db_inv (gw_db (sys_gw s))"
proof -
  have "authentic s"
    using assms(1) by induction (auto intro: authentic_init authentic_step [OF _ assms(2)])
  then have acc: "acc (sys_gw s)" and ok: "\<And>c. session_ok (gw_db (sys_gw s)) (sess s c)"
    by (auto simp: authentic_def)
  have "account (gw_db (sys_gw s)) u i" if "sess s c \<in> {Authenticated u i, Present u i, InRoom u i rn}" for c u i rn
    using ok [of c] that by auto
  moreover have "\<exists>i. account (gw_db (sys_gw s)) u i" if "fmlookup (refreshTokens (gw_auth (sys_gw s))) t = Some u" for t u
    using acc that by (auto simp: acc_def auth_ok_def)
  moreover have "db_inv (gw_db (sys_gw s))" using acc by (simp add: acc_def auth_ok_def)
  ultimately show ?thesis unfolding account_def by blast
qed

theorem sessions_authentic_witness:
  "\<exists>s. sys_reachable (legal_env Some run_sign run_parse) s \<and> sess s 7 = Authenticated ''alice'' ''u1'' \<and>
     (\<exists>usr \<in> set (t_users (gw_db (sys_gw s))). Username usr = ''alice'' \<and> user_ID usr = ''u1'')"
proof -
  obtain s where s: "sys_reachable (legal_env Some run_sign run_parse) s" "sess s 7 = Authenticated ''alice'' ''u1''"
    using run_reaches_alice by blast
  from sessions_authentic [OF s(1) one_token_law, THEN conjunct1, rule_format, of 7 "''alice''" "''u1''" "''lobby''"] s
  show ?thesis by auto
qed

text \<open>
  C2. No ghosts in the gateway: in every reachable state the connection registry holds exactly the
  connections with an open session, at most 100; presence maps a user name only to a connection whose
  session is past authentication as that user; and every connection the router would write to, for a
  room or a direct message, is a session in the command loop of exactly that user. So nothing is ever
  sent for a user to a closed connection or to someone else's.
\<close>

theorem stores_hold_live_connections:
  assumes "sys_reachable (legal_env uuid sign parse) s"
  shows "(\<forall>c. c |\<in>| fmdom (reg_conns (gw_registry (sys_gw s))) \<longleftrightarrow> sess s c \<noteq> Absent \<and> sess s c \<noteq> Closed) \<and>
    Registry_Count (gw_registry (sys_gw s)) \<le> 100 \<and>
    (\<forall>u c. fmlookup (ps_conns (gw_presence (sys_gw s))) u = Some c \<longrightarrow>
      (\<exists>i rn. sess s c \<in> {Present u i, InRoom u i rn})) \<and>
    (\<forall>r e u c. fmlookup (rt_rooms (gw_router (sys_gw s))) r = Some e \<and> fmlookup (Members e) u = Some c \<longrightarrow>
      (\<exists>i rn. sess s c = InRoom u i rn)) \<and>
    (\<forall>u c. fmlookup (rt_users (gw_router (sys_gw s))) u = Some c \<longrightarrow> (\<exists>i rn. sess s c = InRoom u i rn))"
proof -
  have live: "live (sys_gw s) (sess s)"
    using assms by induction (auto intro: live_init live_step)
  note inv = liveD [OF live]
  have opens: "is_open pc \<longleftrightarrow> pc \<noteq> Absent \<and> pc \<noteq> Closed" for pc by (cases pc) auto
  have presents: "present_as pc = Some u \<Longrightarrow> \<exists>i rn. pc \<in> {Present u i, InRoom u i rn}" for pc u by (cases pc) auto
  have in_rooms: "in_rooms_as pc = Some u \<Longrightarrow> \<exists>i rn. pc = InRoom u i rn" for pc u by (cases pc) auto
  show ?thesis
  proof (intro conjI allI impI)
    show "c |\<in>| fmdom (reg_conns (gw_registry (sys_gw s))) \<longleftrightarrow> sess s c \<noteq> Absent \<and> sess s c \<noteq> Closed" for c
      using inv(1) opens by simp
    show "Registry_Count (gw_registry (sys_gw s)) \<le> 100" using inv(2) by (simp add: Registry_Count_def)
    show "\<exists>i rn. sess s c \<in> {Present u i, InRoom u i rn}" if "fmlookup (ps_conns (gw_presence (sys_gw s))) u = Some c" for u c
      using presents [OF inv(3) [OF that]] .
    show "\<exists>i rn. sess s c = InRoom u i rn"
      if "fmlookup (rt_rooms (gw_router (sys_gw s))) r = Some e \<and> fmlookup (Members e) u = Some c" for r e u c
      using that by (intro in_rooms inv(4)) (auto simp: router_conns_def)
    show "\<exists>i rn. sess s c = InRoom u i rn" if "fmlookup (rt_users (gw_router (sys_gw s))) u = Some c" for u c
      using that by (intro in_rooms inv(4)) (auto simp: router_conns_def)
  qed
qed

theorem stores_hold_live_connections_witness:
  "\<exists>s. sys_reachable (legal_env Some run_sign run_parse) s \<and> sess s 7 = Authenticated ''alice'' ''u1'' \<and>
    7 |\<in>| fmdom (reg_conns (gw_registry (sys_gw s)))"
proof -
  obtain s where s: "sys_reachable (legal_env Some run_sign run_parse) s" "sess s 7 = Authenticated ''alice'' ''u1''"
    using run_reaches_alice by blast
  then have "sess s 7 \<noteq> Absent \<and> sess s 7 \<noteq> Closed" by simp
  with stores_hold_live_connections [OF s(1), THEN conjunct1, rule_format, of 7] s show ?thesis by blast
qed

end
