(* ===== verification/Sessions.thy ===== *)
theory Sessions
  imports System
begin

text \<open>
  The protocol of a session as a type discipline on \<open>handleConn\<close>: which state a session may go to from
  which, that no session is ever stuck, and that a step moves one session only.
\<close>

section \<open>The protocol\<close>

fun session_next :: "session \<Rightarrow> session \<Rightarrow> bool" where
  "session_next Absent pc = (pc = AuthMenu \<or> pc = Closed)"
| "session_next AuthMenu pc = (pc \<in> {AuthMenu, RegisterName, LoginName, RefreshPrompt, Closed})"
| "session_next RegisterName pc = (pc = Closed \<or> (\<exists>u. pc = RegisterPassword u))"
| "session_next LoginName pc = (pc = Closed \<or> (\<exists>u. pc = LoginPassword u))"
| "session_next (RegisterPassword u) pc = (pc \<in> {AuthMenu, Closed} \<or> (\<exists>i. pc = Authenticated u i))"
| "session_next (LoginPassword u) pc = (pc \<in> {AuthMenu, Closed} \<or> (\<exists>i. pc = Authenticated u i))"
| "session_next RefreshPrompt pc = (pc \<in> {AuthMenu, Closed} \<or> (\<exists>u i. pc = Authenticated u i))"
| "session_next (Authenticated u i) pc = (pc = Present u i)"
| "session_next (Present u i) pc = (pc = InRoom u i defaultRoom)"
| "session_next (InRoom u i rn) pc =
     (pc = Closed \<or> pc = InRoom u i rn \<or> pc = InRoom u i defaultRoom \<or>
      (\<exists>rn'. pc = InRoom u i rn' \<and> ValidateRoomName rn' = None))"
| "session_next Closed pc = False"

section \<open>Lemmas\<close>

text \<open>A handler that answers with the name it was given keeps it through the retries.\<close>

lemma auth_rpc_name:
  fixes res :: "'z session_response_scheme"
  assumes "auth_rpc E h g = (Inr res, g')" and h: "\<And>call st r st'. h call st = (Inr r, st') \<Longrightarrow> resp_Username r = u"
  shows "resp_Username res = u"
proof -
  let ?fn = "\<lambda>i. rpc (e_rpc E i) (h (pg_user_repo (e_uuid E) (e_ts E) (e_sql E i), e_auth E i))"
  obtain sleeps st where retry: "retry_from 1 ?fn 3 1000000000 (gw_auth g, gw_db g) = (Inr res, sleeps, st)"
    using assms(1) by (auto simp: auth_rpc_def callWithRetry_def split: prod.splits)
  have "True \<and> (\<forall>r. (Inr res :: go_error + 'z session_response_scheme) = Inr r \<longrightarrow> resp_Username r = u)"
    by (rule retry_from_inv [where I = "\<lambda>_. True" and fn = ?fn and P = "\<lambda>(r :: 'z session_response_scheme) st. resp_Username r = u",
          OF _ _ _ retry]) (auto simp: rpc_def split: rpc_fault.splits dest!: h)
  then show ?thesis by blast
qed

lemma grpc_names:
  "grpc_Login A c u p st = (Inr r, st') \<Longrightarrow> resp_Username r = u"
  "grpc_Register A c u p st = (Inr r, st') \<Longrightarrow> resp_Username r = u"
  by (auto simp: grpc_Login_def grpc_Register_def split: sum.splits prod.splits option.splits)

lemma auth_next:
  assumes "runAuthLoop_step E c pc0 g = (pc, g')" and "in_auth pc0"
  shows "session_next pc0 pc"
proof -
  obtain r g1 where r: "recv c g = (r, g1)" by fastforce
  note names = auth_rpc_name [OF _ grpc_names(1)] auth_rpc_name [OF _ grpc_names(2)]
  show ?thesis
    using assms r
    by (cases pc0) (auto simp: runAuthLoop_step_def auth_menu_def auth_register_def auth_login_def auth_refresh_def Let_def
        split: sum.splits prod.splits if_splits dest: names)
qed

lemma join_next: "cmd_join E c u i rn args g = Inr (pc, g') \<Longrightarrow> session_next (InRoom u i rn) pc"
  by (auto simp: cmd_join_def Let_def split: if_splits option.splits sum.splits)

lemma leave_next: "cmd_leave E c u i rn g = (pc, g') \<Longrightarrow> session_next (InRoom u i rn) pc"
  by (auto simp: cmd_leave_def Let_def)

lemma command_next:
  assumes "runCommandLoop_step E c u i rn g = Inr (pc, g')"
  shows "session_next (InRoom u i rn) pc"
  using assms
proof (cases rule: command_cases)
  case (join dat g1 args)
  from join(2) show ?thesis by (rule join_next)
next
  case (leave dat g1)
  from leave(2) show ?thesis by (intro leave_next [of E c u i rn g1 pc g']) simp
next
  case (who dat g1)
  then show ?thesis by (cases "cmd_who E c g1") auto
next
  case (message dat g1 msg)
  then show ?thesis by (cases "cmd_message E c u i rn msg g1") auto
qed auto

lemma enter_next: "runCommandLoop_enter E c u i g = Inr (pc, g') \<Longrightarrow> session_next (Present u i) pc"
  using same_accounts_enter(1) by simp

text \<open>Each step leaves all sessions alone, or moves one along the protocol.\<close>

lemma step_moves_one:
  assumes "sys_step L s s'"
  obtains (none) "sess s' = sess s" | (one) c pc where "sess s' = (sess s)(c := pc)" "session_next (sess s c) pc"
  using assms
proof cases
  case (accept c)
  then show ?thesis
    by (intro one [of c "fst (accept_conn c (sys_gw s))"]) (auto simp: goto_def accept_conn_def split: prod.splits option.splits)
next
  case (auth c E)
  obtain pc g where "runAuthLoop_step E c (sess s c) (sys_gw s) = (pc, g)" by fastforce
  with auth auth_next [OF this] show ?thesis by (intro one [of c pc]) (auto simp: goto_def)
next
  case (present c u i)
  then show ?thesis by (intro one [of c "Present u i"]) (auto simp: goto_def presence_add_def)
next
  case (enter c u i E r)
  with enter_next [of E c u i "sys_gw s" "fst r" "snd r"] show ?thesis
    by (intro one [of c "fst r"]) (auto simp: goto_def)
next
  case (command c u i rn E r)
  with command_next [of E c u i rn "sys_gw s" "fst r" "snd r"] show ?thesis
    by (intro one [of c "fst r"]) (auto simp: goto_def)
qed (auto intro: none)

text \<open>Every session that is not closed can take its next step, whatever the environment does.\<close>

lemma session_can_step:
  assumes "\<not> crashed s" and "sess s c \<noteq> Closed" and "L E"
  shows "\<exists>s'. sys_step L s s' \<and> (crashed s' \<or> session_next (sess s c) (sess s' c))"
proof (cases "in_auth (sess s c)")
  case True
  obtain pc g where "runAuthLoop_step E c (sess s c) (sys_gw s) = (pc, g)" by fastforce
  with auth_next [OF this True] sys_step.auth [where L = L and E = E, OF assms(1) True assms(3)] show ?thesis
    by (intro exI [of _ "goto c (pc, g) s"]) (simp add: goto_def)
next
  case False
  show ?thesis
  proof (cases "sess s c")
    case Absent
    with sys_step.accept [OF assms(1) Absent, of L] show ?thesis
      by (intro exI [of _ "goto c (accept_conn c (sys_gw s)) s"])
        (auto simp: goto_def accept_conn_def split: prod.splits option.splits)
  next
    case (Authenticated u i)
    with sys_step.present [OF assms(1) Authenticated, of L] show ?thesis
      by (intro exI [of _ "goto c (presence_add c u i (sys_gw s)) s"]) (auto simp: goto_def presence_add_def)
  next
    case (Present u i)
    show ?thesis
    proof (cases "runCommandLoop_enter E c u i (sys_gw s)")
      case (Inl g)
      from sys_step.panic_enter [where L = L and E = E, OF assms(1) Present assms(3) Inl] show ?thesis
        by (intro exI [of _ "crash g s"]) simp
    next
      case (Inr r)
      with sys_step.enter [where L = L and E = E, OF assms(1) Present assms(3) Inr] enter_next [of E c u i "sys_gw s" "fst r" "snd r"] Present
      show ?thesis by (intro exI [of _ "goto c r s"]) (simp add: goto_def)
    qed
  next
    case (InRoom u i rn)
    show ?thesis
    proof (cases "runCommandLoop_step E c u i rn (sys_gw s)")
      case (Inl g)
      from sys_step.panic_command [where L = L and E = E, OF assms(1) InRoom assms(3) Inl] show ?thesis
        by (intro exI [of _ "crash g s"]) simp
    next
      case (Inr r)
      with sys_step.command [where L = L and E = E, OF assms(1) InRoom assms(3) Inr] command_next [of E c u i rn "sys_gw s" "fst r" "snd r"] InRoom
      show ?thesis by (intro exI [of _ "goto c r s"]) (simp del: session_next.simps add: goto_def)
    qed
  qed (use False assms(2) in auto)
qed

lemma room_names_step:
  assumes "sys_step L s s'" and "\<forall>c u i rn. sess s c = InRoom u i rn \<longrightarrow> ValidateRoomName rn = None"
  shows "\<forall>c u i rn. sess s' c = InRoom u i rn \<longrightarrow> ValidateRoomName rn = None"
  using assms(1)
proof (cases rule: step_moves_one)
  case none
  with assms(2) show ?thesis by simp
next
  case (one c pc)
  have "ValidateRoomName defaultRoom = None"
    by (simp add: defaultRoom_def ValidateRoomName_def roomNameRegex_def is_alnum_def)
  then have "ValidateRoomName rn = None" if "pc = InRoom u i rn" for u i rn
    using one(2) assms(2) that by (cases "sess s c") (auto split: if_splits)
  with assms(2) show ?thesis unfolding one(1) by auto
qed

section \<open>Properties\<close>

text \<open>
  C4. The session protocol, as preservation and progress. Every step of the system moves at most one
  session, and only along \<open>session_next\<close>: the name a session registers or logs in with is the name it is
  authenticated as, an authenticated session keeps its name and ID to the end, a closed one stays
  closed, and the room it is in always has a valid name. And no session is ever stuck: whatever the
  environment, until it is closed it can take a step of the protocol, unless that step is the panic that
  ends the process.
\<close>

theorem session_protocol:
  assumes "sys_reachable (legal_env uuid sign parse) s" and "legal_env uuid sign parse E"
  shows "(\<forall>s'. sys_step (legal_env uuid sign parse) s s' \<longrightarrow>
      sess s' = sess s \<or> (\<exists>c pc. sess s' = (sess s)(c := pc) \<and> session_next (sess s c) pc)) \<and>
    (\<forall>c u i rn. sess s c = InRoom u i rn \<longrightarrow> ValidateRoomName rn = None) \<and>
    (\<not> crashed s \<longrightarrow> (\<forall>c. sess s c \<noteq> Closed \<longrightarrow>
      (\<exists>s'. sys_step (legal_env uuid sign parse) s s' \<and> (crashed s' \<or> session_next (sess s c) (sess s' c)))))"
proof (intro conjI)
  show "\<forall>s'. sys_step (legal_env uuid sign parse) s s' \<longrightarrow>
      sess s' = sess s \<or> (\<exists>c pc. sess s' = (sess s)(c := pc) \<and> session_next (sess s c) pc)"
    by (blast elim: step_moves_one)
  show "\<forall>c u i rn. sess s c = InRoom u i rn \<longrightarrow> ValidateRoomName rn = None"
    using assms(1)
  proof induction
    case (step s s')
    from room_names_step [OF step(2,3)] show ?case .
  qed (simp add: sys_init_def)
  show "\<not> crashed s \<longrightarrow> (\<forall>c. sess s c \<noteq> Closed \<longrightarrow>
      (\<exists>s'. sys_step (legal_env uuid sign parse) s s' \<and> (crashed s' \<or> session_next (sess s c) (sess s' c))))"
    using session_can_step [of s _ "legal_env uuid sign parse" E] assms(2) by blast
qed

theorem session_protocol_witness:
  "\<exists>s s'. sys_reachable (legal_env Some run_sign run_parse) s \<and> sess s 7 = Authenticated ''alice'' ''u1'' \<and>
     sys_step (legal_env Some run_sign run_parse) s s' \<and> (crashed s' \<or> sess s' 7 = Present ''alice'' ''u1'')"
proof -
  obtain s where s: "sys_reachable (legal_env Some run_sign run_parse) s" "sess s 7 = Authenticated ''alice'' ''u1''" "\<not> crashed s"
    using run_reaches_alice by blast
  from session_protocol [OF s(1) run_env_legal, THEN conjunct2, THEN conjunct2, rule_format, OF s(3), of 7] s(2)
  obtain s' where "sys_step (legal_env Some run_sign run_parse) s s'" "crashed s' \<or> sess s' 7 = Present ''alice'' ''u1''" by auto
  with s show ?thesis by blast
qed

end
