(* ===== verification/Commands.thy ===== *)
theory Commands
  imports System
begin

text \<open>
  What the commands of the gateway do, end to end: a chat message from the rate limiter to the other
  members' connections and the history; and what joining, failing calls and disconnecting leave behind.
\<close>

text \<open>Joining never removes anybody from a room.\<close>

lemma join_keeps_members:
  assumes "rt_JoinRoom R i t r u c (rt, s) = (res, rt', s')"
    and "fmlookup (rt_rooms rt) r0 = Some e" and "fmlookup (Members e) v = Some d" and "v \<noteq> u \<or> c = Some d"
  shows "\<exists>e'. fmlookup (rt_rooms rt') r0 = Some e' \<and> fmlookup (Members e') v = Some d"
  using assms by (cases rule: rt_join_cases) auto

text \<open>A message later than all others comes first in every descending order.\<close>

lemma newest_first:
  assumes "desc_sorter srt" and "\<forall>x \<in> set xs. msg_CreatedAt x < msg_CreatedAt m"
  shows "\<exists>ys. srt (xs @ [m]) = m # ys \<and> set ys = set xs"
proof -
  have perm: "mset (srt (xs @ [m])) = mset (xs @ [m])"
    and desc: "sorted_wrt (\<lambda>a b. msg_CreatedAt b \<le> msg_CreatedAt a) (srt (xs @ [m]))"
    using assms(1) by (simp_all add: desc_sorter_def)
  obtain y ys where y: "srt (xs @ [m]) = y # ys" using perm by (cases "srt (xs @ [m])") auto
  have "y = m"
  proof (rule ccontr)
    assume "y \<noteq> m"
    then have "y \<in> set xs" "m \<in> set ys" using arg_cong [OF perm, of set_mset] unfolding y by auto
    then show False using desc assms(2) unfolding y by fastforce
  qed
  moreover have "set ys = set xs" using perm unfolding y \<open>y = m\<close> by (simp flip: set_mset_mset)
  ultimately show ?thesis using y by blast
qed

section \<open>A gateway with a room\<close>

text \<open>Alice on connection 7 and Bob on connection 8 in the room lobby, for the witnesses.\<close>

definition chat_gw :: gateway where
  "chat_gw = (start_gateway ''key''
     (empty_db\<lparr>t_users := [NewUser ''u1'' (Time 0) ''alice'' ''h''], t_rooms := [NewRoom ''r1'' (Time 0) ''lobby''],
       t_messages := [domain_NewMessage ''m0'' (Time (- 1)) ''u1'' ''r1'' '''' ''first'']\<rparr>)
     (\<lambda>_. \<lparr>inb = [], rerr = EOF, outb = [], wcap = None\<rparr>))
   \<lparr>gw_router := \<lparr>rt_rooms = fmupd ''lobby'' \<lparr>Room = NewRoom ''r1'' (Time 0) ''lobby'',
                     Members = fmupd ''alice'' 7 (fmupd ''bob'' 8 fmempty)\<rparr> fmempty,
                   rt_users = fmupd ''alice'' 7 (fmupd ''bob'' 8 fmempty)\<rparr>,
    gw_rooms := \<lparr>rs_rooms = fmupd ''lobby'' \<lparr>entry_id = ''r1'', entry_members = {|''alice'', ''bob''|}\<rparr> fmempty\<rparr>\<rparr>"

lemma chat_gw_limiter: "\<exists>l. BucketRegistry_Allow (Time 0, Time 0, Time 0) ''alice'' (gw_msgLimiter chat_gw) = (True, l)"
proof -
  have "fl 5 = 5" using fl_of_nat [of 5] by simp
  then show ?thesis
    by (simp add: chat_gw_def start_gateway_def BucketRegistry_Allow_def NewBucketRegistry_def NewTokenBucket_def
        tb_Allow_def Let_def Seconds_def time_sub_def)
qed

section \<open>Properties\<close>

text \<open>
  C3. A chat message end to end: when the rate limiter admits it and the calls go through, every
  connection is written the formatted message once per member registered with it in the sender's room,
  nothing else is written to anybody, and the message, with the sender's name, the text as sent and the
  time as the column keeps it, is one more visible message of the room in a database that still satisfies
  the schema. If the clock has moved on since the room's earlier messages, it is their newest: the history
  query answers with it first, whatever the limit and however the database orders equal times.
\<close>

theorem chat_message_end_to_end:
  assumes "BucketRegistry_Allow (e_clk_msg E) u (gw_msgLimiter g) = (True, l)" and "iteration_order (e_ord E)"
    and "fmlookup (rt_rooms (gw_router g)) rn = Some e" and "e_rpc E 2 = Answered" and "e_sql E 3 = Runs"
    and "db_inv (gw_db g)" and "usr \<in> set (t_users (gw_db g))" and "user_ID usr = i" and "Username usr = u"
    and "e_uuid E i = Some i" and "i \<noteq> SystemSenderID" and "e_uuid E (e_id E 3) = Some (e_id E 3)"
    and "e_id E 3 \<notin> msg_ID ` set (t_messages (gw_db g))" and "rid = rs_GetRoomID rn (gw_rooms g)"
    and "e_uuid E rid = Some rid" and "rid \<in> room_ID ` set (t_rooms (gw_db g))"
  shows "\<exists>g'. cmd_message E c u i rn msg g = Inr g' \<and>
    (\<forall>d. gw_net g' d =
      ((\<lambda>x. snd (WriteMessage (''['' @ Name (Room e) @ ''] '' @ u @ '': '' @ msg) x)) ^^
         card {v. fmlookup (Members e) v = Some d}) (gw_net g d)) \<and>
    (\<exists>m. visible_messages (gw_db g') rid = visible_messages (gw_db g) rid @ [m] \<and>
       From m = u \<and> Body m = msg \<and> SenderID m = i \<and> msg_CreatedAt m = e_ts E (e_now E) \<and>
       ((\<forall>x \<in> set (visible_messages (gw_db g) rid). msg_CreatedAt x < e_ts E (e_now E)) \<longrightarrow>
         (\<forall>srt lim. desc_sorter srt \<and> 0 < lim \<longrightarrow>
           (\<exists>rest. MessageRepo_ListByRoom srt (e_uuid E) Runs rid lim (gw_db g') = Inr (m # rest))))) \<and>
    db_inv (gw_db g')"
proof -
  let ?m = "NewMessage (e_id E 1) (e_now E) u msg"
  let ?dm = "domain_NewMessage (e_id E 3) (e_now E) i rid u msg"
  let ?row = "?dm\<lparr>From := '''', msg_CreatedAt := e_ts E (msg_CreatedAt ?dm)\<rparr>"
  note net = rt_BroadcastRoom_net [OF assms(2,3), of ?m "gw_net g"]
  have none: "fst (rt_BroadcastRoom (e_ord E) rn ?m (gw_router g) (gw_net g)) = None" using net(1) by (metis fst_conv)
  have create: "MessageRepo_Create (e_uuid E) (e_ts E) (e_sql E 3) ?dm (gw_db g) =
      (None, (gw_db g)\<lparr>t_messages := t_messages (gw_db g) @ [?row]\<rparr>)"
    using assms(5,7,8,10-13,15,16) by (auto simp: MessageRepo_Create_def exec_sql_Runs domain_NewMessage_def)
  obtain g' where g': "cmd_message E c u i rn msg g = Inr g'"
    "gw_net g' = snd (rt_BroadcastRoom (e_ord E) rn ?m (gw_router g) (gw_net g))"
    "gw_db g' = (gw_db g)\<lparr>t_messages := t_messages (gw_db g) @ [?row]\<rparr>"
    using assms(1,4,14) create none
    by (auto simp: cmd_message_def broadcast_def remote_GetRoomID_def rpc_def grpc_GetRoomID_def publish_def Let_def case_prod_beta)
  have "db_inv (gw_db g')"
    using MessageRepo_Create_inv [OF assms(6), of "e_uuid E" "e_ts E" "e_sql E 3" ?dm] create g'(3) by simp
  moreover have "sender_name (gw_db g') i = u"
  proof -
    have "filter (\<lambda>v. user_ID v = i) (t_users (gw_db g)) = [usr]"
      using filter_unique [of user_ID "t_users (gw_db g)" usr] assms(6-8) by (simp add: db_inv_def)
    then have "find (\<lambda>v. user_ID v = i) (t_users (gw_db g)) = Some usr"
      using find_filter [of "\<lambda>v. user_ID v = i" "t_users (gw_db g)"] by (metis list.simps(5) sum.inject(2))
    then show ?thesis using g'(3) assms(9) by (simp add: sender_name_def)
  qed
  moreover have "sender_name (gw_db g') j = sender_name (gw_db g) j" for j by (simp add: g'(3) sender_name_def)
  ultimately have vis: "visible_messages (gw_db g') rid = visible_messages (gw_db g) rid @ [?row\<lparr>From := u\<rparr>]"
    and inv: "db_inv (gw_db g')"
    by (simp_all add: visible_messages_def g'(3) domain_NewMessage_def)
  have "\<exists>rest. MessageRepo_ListByRoom srt (e_uuid E) Runs rid lim (gw_db g') = Inr (?row\<lparr>From := u\<rparr> # rest)"
    if new: "\<forall>x \<in> set (visible_messages (gw_db g) rid). msg_CreatedAt x < e_ts E (e_now E)"
      and srt: "desc_sorter srt" "0 < lim" for srt lim
  proof -
    have "\<forall>x \<in> set (visible_messages (gw_db g) rid). msg_CreatedAt x < msg_CreatedAt (?row\<lparr>From := u\<rparr>)"
      using new by (simp add: domain_NewMessage_def)
    from newest_first [OF srt(1) this] obtain ys where "srt (visible_messages (gw_db g') rid) = ?row\<lparr>From := u\<rparr> # ys"
      unfolding vis by blast
    then show ?thesis
      using srt(2) assms(15) by (cases lim) (simp_all add: MessageRepo_ListByRoom_def query_rows_def visible_messages_eq [OF inv])
  qed
  moreover note vis inv
  moreover have "broadcast_text (Room e) ?m = ''['' @ Name (Room e) @ ''] '' @ u @ '': '' @ msg"
    by (simp add: broadcast_text_def NewMessage_def domain_NewMessage_def)
  ultimately show ?thesis
    using g'(1,2) net(2) by (intro exI [of _ g'] conjI exI [of _ "?row\<lparr>From := u\<rparr>"]) (simp_all add: domain_NewMessage_def)
qed

theorem chat_message_end_to_end_witness:
  "\<exists>g'. cmd_message run_env 7 ''alice'' ''u1'' ''lobby'' ''hi'' chat_gw = Inr g' \<and> db_inv (gw_db g') \<and>
     outb (gw_net g' 8) = encode ''[lobby] alice: hi'' \<and>
     (\<exists>m rest. MessageRepo_ListByRoom sort_desc Some Runs ''r1'' 20 (gw_db g') = Inr (m # rest) \<and> Body m = ''hi'')"
proof -
  let ?e = "\<lparr>Room = NewRoom ''r1'' (Time 0) ''lobby'', Members = fmupd ''alice'' 7 (fmupd ''bob'' (8 :: conn) fmempty)\<rparr>"
  let ?usr = "NewUser ''u1'' (Time 0) ''alice'' ''h''"
  obtain l where l: "BucketRegistry_Allow (e_clk_msg run_env) ''alice'' (gw_msgLimiter chat_gw) = (True, l)"
    using chat_gw_limiter by (auto simp: run_env_def)
  have E: "iteration_order (e_ord run_env)" "e_rpc run_env 2 = Answered" "e_sql run_env 3 = Runs"
    "e_uuid run_env ''u1'' = Some ''u1''" "e_uuid run_env (e_id run_env 3) = Some (e_id run_env 3)" "e_uuid run_env ''r1'' = Some ''r1''"
    by (simp_all add: run_env_def iteration_order_sorted)
  have g: "fmlookup (rt_rooms (gw_router chat_gw)) ''lobby'' = Some ?e" "db_inv (gw_db chat_gw)" "?usr \<in> set (t_users (gw_db chat_gw))"
    "user_ID ?usr = ''u1''" "Username ?usr = ''alice''" "''u1'' \<noteq> SystemSenderID"
    "e_id run_env 3 \<notin> msg_ID ` set (t_messages (gw_db chat_gw))" "''r1'' = rs_GetRoomID ''lobby'' (gw_rooms chat_gw)"
    "''r1'' \<in> room_ID ` set (t_rooms (gw_db chat_gw))"
    by (simp_all add: chat_gw_def start_gateway_def db_inv_def empty_db_def NewUser_def NewRoom_def domain_NewMessage_def
        SystemSenderID_def rs_GetRoomID_def run_env_def)
  have old: "\<forall>x \<in> set (visible_messages (gw_db chat_gw) ''r1''). msg_CreatedAt x < e_ts run_env (e_now run_env)"
    by (simp add: visible_messages_def chat_gw_def start_gateway_def empty_db_def domain_NewMessage_def run_env_def less_time_def)
  obtain g' where g': "cmd_message run_env 7 ''alice'' ''u1'' ''lobby'' ''hi'' chat_gw = Inr g'" "db_inv (gw_db g')"
    and net: "\<And>d. gw_net g' d =
      ((\<lambda>x. snd (WriteMessage (''['' @ Name (Room ?e) @ ''] '' @ ''alice'' @ '': '' @ ''hi'') x)) ^^
         card {v. fmlookup (Members ?e) v = Some d}) (gw_net chat_gw d)"
    and m: "\<exists>m rest. MessageRepo_ListByRoom sort_desc (e_uuid run_env) Runs ''r1'' 20 (gw_db g') = Inr (m # rest) \<and> Body m = ''hi''"
    using chat_message_end_to_end [OF l E(1) g(1) E(2,3) g(2-5) E(4) g(6) E(5) g(7,8) E(6) g(9), of 7 "''hi''"] old
      sort_desc_sorter zero_less_numeral by metis
  have "{v. fmlookup (Members ?e) v = Some 8} = {''bob''}" by auto
  then have k: "card {v. fmlookup (Members ?e) v = Some 8} = 1"
    by (simp only: card.empty card.insert finite.emptyI empty_iff not_False_eq_True One_nat_def)
  have "gw_net chat_gw 8 = \<lparr>inb = [], rerr = EOF, outb = [], wcap = None\<rparr>" by (simp add: chat_gw_def start_gateway_def)
  then have "outb (gw_net g' 8) = encode ''[lobby] alice: hi''"
    using net [of 8, unfolded k] by (simp add: NewRoom_def WriteMessage_None)
  moreover have "e_uuid run_env = Some" by (simp add: run_env_def)
  ultimately show ?thesis using g' m by auto
qed

text \<open>
  C23. \<open>/join\<close> never leaves: it asks the messaging service to take the user out of the old room and
  into the new one, but only adds to the gateway's router. Afterwards every member of every room of the
  router is still there, the user included, who keeps receiving the messages of all rooms joined before.
\<close>

theorem join_keeps_old_room:
  assumes "cmd_join E c u i old args g = Inr (pc, g')"
    and "fmlookup (rt_rooms (gw_router g)) old = Some e" and "fmlookup (Members e) u = Some c"
  shows "\<exists>e'. fmlookup (rt_rooms (gw_router g')) old = Some e' \<and> fmlookup (Members e') u = Some c"
proof -
  have keep: "\<exists>e'. fmlookup (rt_rooms (gw_router (local_JoinRoom E 3 rn u c x))) old = Some e' \<and> fmlookup (Members e') u = Some c"
    if "gw_router x = gw_router g" for x rn
  proof -
    obtain res rt db where j: "rt_JoinRoom (pg_room_repo (e_uuid E) (e_ts E) (e_sql E 3)) (e_id E 3) (e_now E) rn u (Some c) (gw_router g, gw_db x) = (res, rt, db)"
      by (metis prod_cases3)
    from join_keeps_members [OF j assms(2,3)] j that show ?thesis by (auto simp: local_JoinRoom_def)
  qed
  have "gw_router (remote_JoinRoom E 2 rn u (remote_LeaveRoom E 1 old u g)) = gw_router g" for rn
    by (simp add: remote_JoinRoom_def remote_LeaveRoom_def split: prod.splits)
  from keep [OF this] show ?thesis
    using assms unfolding cmd_join_def Let_def by (auto split: if_splits option.splits sum.splits)
qed

theorem join_keeps_old_room_witness:
  "\<exists>pc g' e'. cmd_join run_env 7 ''alice'' ''u1'' ''lobby'' [''other''] chat_gw = Inr (pc, g') \<and>
     fmlookup (rt_rooms (gw_router g')) ''lobby'' = Some e' \<and> fmlookup (Members e') ''alice'' = Some 7"
proof -
  have valid: "ValidateRoomName ''other'' = None"
    by (simp add: ValidateRoomName_def roomNameRegex_def is_alnum_def)
  have ok: "remote_GetRoomID run_env 4 rn g = Inr (rs_GetRoomID rn (gw_rooms g))" for rn g
    by (simp add: remote_GetRoomID_def rpc_def run_env_def grpc_GetRoomID_def)
  obtain pc g' where j: "cmd_join run_env 7 ''alice'' ''u1'' ''lobby'' [''other''] chat_gw = Inr (pc, g')"
    by (simp add: cmd_join_def valid ok Let_def)
  let ?e = "\<lparr>Room = NewRoom ''r1'' (Time 0) ''lobby'', Members = fmupd ''alice'' 7 (fmupd ''bob'' (8 :: conn) fmempty)\<rparr>"
  have "fmlookup (rt_rooms (gw_router chat_gw)) ''lobby'' = Some ?e" "fmlookup (Members ?e) ''alice'' = Some 7"
    by (simp_all add: chat_gw_def)
  from join_keeps_old_room [OF j this] j show ?thesis by blast
qed

text \<open>
  C22. When the gateway panics: entering the chat does exactly when the call of \<open>GetRoomID\<close> fails, and a
  frame in the command loop exactly when it is a \<open>/join\<close> with a valid room name or a chat message the rate
  limiter admits, and the call of \<open>GetRoomID\<close> fails, or a \<open>/who\<close> whose call of \<open>ListOnline\<close> fails. The code
  dereferences the nil response then, and the panic ends the process for all connections.
\<close>

theorem gateway_panics_iff:
  "(isl (runCommandLoop_enter E c u i g) \<longleftrightarrow> e_rpc E 3 \<noteq> Answered) \<and>
   (isl (runCommandLoop_step E c u i rn g) \<longleftrightarrow>
      (\<exists>dat cmd args. fst (recv c g) = Inr dat \<and> Fields (TrimSpace dat) = cmd # args \<and>
         (if cmd = ''/join'' then args \<noteq> [] \<and> ValidateRoomName (Join args '' '') = None \<and> e_rpc E 4 \<noteq> Answered
          else if cmd = ''/who'' then e_rpc E 1 \<noteq> Answered
          else cmd \<notin> {''/help'', ''/leave'', ''/rooms''} \<and>
            fst (BucketRegistry_Allow (e_clk_msg E) u (gw_msgLimiter g)) \<and> e_rpc E 2 \<noteq> Answered)))"
proof -
  note GetRoomID = remote_GetRoomID_def rpc_def grpc_GetRoomID_def
  have enter: "isl (runCommandLoop_enter E c u i g) \<longleftrightarrow> e_rpc E 3 \<noteq> Answered"
    by (cases "e_rpc E 3") (simp_all add: runCommandLoop_enter_def Let_def GetRoomID)
  have join: "isl (cmd_join E c u i rn args x) \<longleftrightarrow>
      args \<noteq> [] \<and> ValidateRoomName (Join args '' '') = None \<and> e_rpc E 4 \<noteq> Answered" for args x
    by (cases "e_rpc E 4") (simp_all add: cmd_join_def Let_def GetRoomID split: option.split)
  have who: "isl (cmd_who E c x) \<longleftrightarrow> e_rpc E 1 \<noteq> Answered" for x
    by (cases "e_rpc E 1") (simp_all add: cmd_who_def remote_ListOnline_def rpc_def grpc_ListOnline_def)
  have msg: "isl (cmd_message E c u i rn m x) \<longleftrightarrow>
      fst (BucketRegistry_Allow (e_clk_msg E) u (gw_msgLimiter x)) \<and> e_rpc E 2 \<noteq> Answered" for m x
    by (cases "e_rpc E 2") (simp_all add: cmd_message_def Let_def case_prod_unfold GetRoomID)
  obtain r g1 where r: "recv c g = (r, g1)" by fastforce
  have lim: "gw_msgLimiter g1 = gw_msgLimiter g" by (rule same_but_net_fields [OF same_but_net_recv [OF r]])
  show ?thesis
  proof (intro conjI enter, cases r)
    case (Inr dat)
    show "isl (runCommandLoop_step E c u i rn g) \<longleftrightarrow> (\<exists>dat cmd args. fst (recv c g) = Inr dat \<and> Fields (TrimSpace dat) = cmd # args \<and>
         (if cmd = ''/join'' then args \<noteq> [] \<and> ValidateRoomName (Join args '' '') = None \<and> e_rpc E 4 \<noteq> Answered
          else if cmd = ''/who'' then e_rpc E 1 \<noteq> Answered
          else cmd \<notin> {''/help'', ''/leave'', ''/rooms''} \<and>
            fst (BucketRegistry_Allow (e_clk_msg E) u (gw_msgLimiter g)) \<and> e_rpc E 2 \<noteq> Answered))"
    proof (cases "Fields (TrimSpace dat)")
      case Nil
      with r Inr show ?thesis by (simp add: runCommandLoop_step_def Let_def)
    next
      case (Cons cmd args)
      then show ?thesis
        using r Inr by (simp add: runCommandLoop_step_def Let_def isl_map_sum join who msg lim)
    qed
  qed (use r in \<open>simp add: runCommandLoop_step_def\<close>)
qed

text \<open>
  C24. A disconnect is not told to the messaging service: when a session in the command loop ends, its
  user is in no room of the gateway's router, on this or any other connection, but stays a member of
  every room in the messaging service's store.
\<close>

theorem disconnect_leaves_ghost_member:
  assumes "runCommandLoop_step E c u i rn g = Inr (Closed, g')" and "iteration_order (e_ord E)"
  shows "(\<forall>r e. fmlookup (rt_rooms (gw_router g')) r = Some e \<longrightarrow> fmlookup (Members e) u = None) \<and>
    fmlookup (rt_users (gw_router g')) u = None \<and> rs_pairs (gw_rooms g') = rs_pairs (gw_rooms g)"
  using assms(1)
proof (cases rule: own_command)
  case (closed g1)
  then have "gw_rooms g' = gw_rooms g" using same_but_net_fields [OF closed(2)] by (simp add: close_conn_def Let_def)
  moreover have rt: "gw_router g' = rt_Disconnect (e_ord E) u (gw_router g)"
    using closed same_but_net_fields [OF closed(2)] by (simp add: close_conn_def Let_def)
  moreover have "fmlookup (Members e) u = None" if "fmlookup (rt_rooms (gw_router g')) r = Some e" for r e
    using that unfolding rt rt_disconnect_lookup [OF assms(2)] by (auto split: option.splits if_splits)
  moreover have "fmlookup (rt_users (gw_router g')) u = None" unfolding rt by (simp add: rt_Disconnect_def)
  ultimately show ?thesis by simp
qed simp

theorem disconnect_leaves_ghost_member_witness:
  "\<exists>g'. runCommandLoop_step run_env 7 ''alice'' ''u1'' ''lobby'' chat_gw = Inr (Closed, g') \<and>
     fmlookup (rt_users (gw_router g')) ''alice'' = None \<and> (''lobby'', ''alice'') \<in> rs_pairs (gw_rooms g')"
proof -
  obtain g' where s: "runCommandLoop_step run_env 7 ''alice'' ''u1'' ''lobby'' chat_gw = Inr (Closed, g')"
    by (simp add: runCommandLoop_step_def recv_def ReadMessage_def ReadFull_def chat_gw_def start_gateway_def Let_def)
  have "iteration_order (e_ord run_env)" by (simp add: run_env_def iteration_order_sorted)
  moreover have "(''lobby'', ''alice'') \<in> rs_pairs (gw_rooms chat_gw)"
    by (simp add: rs_pairs_def chat_gw_def)
  ultimately show ?thesis using disconnect_leaves_ghost_member [OF s] s by blast
qed

end
