(* ===== verification/PresenceFeed.thy ===== *)
theory PresenceFeed
  imports Sessions
begin

text \<open>
  From the gateway over NATS to the presence service: which users the service lists when it has received,
  in order, everything the gateway published on its subject.
\<close>

section \<open>The feed\<close>

definition feed :: "(string \<Rightarrow> go_error + string \<times> bool) \<Rightarrow> bus \<Rightarrow> online_store" where
  "feed unmarshal bus =
     on_presence_msgs unmarshal (map snd (filter (\<lambda>m. fst m = SubjectUserPresence) bus)) NewOnlineStore"

definition listed :: "(string \<Rightarrow> go_error + string \<times> bool) \<Rightarrow> gateway \<Rightarrow> string fset" where
  "listed unmarshal g = fmdom (online (feed unmarshal (gw_bus g)))"

section \<open>Lemmas\<close>

text \<open>What the calls of the handlers do to the list: nothing, except a publication on the presence subject.\<close>

lemma listed_bus: "gw_bus g' = gw_bus g \<Longrightarrow> listed unm g' = listed unm g"
  by (simp add: listed_def)

lemma listed_updates [simp]:
  "listed unm (g\<lparr>gw_msgLimiter := l\<rparr>) = listed unm g" "listed unm (g\<lparr>gw_regLimiter := rl\<rparr>) = listed unm g"
  "listed unm (g\<lparr>gw_net := n\<rparr>) = listed unm g" "listed unm (g\<lparr>gw_db := db\<rparr>) = listed unm g"
  "listed unm (g\<lparr>gw_presence := ps\<rparr>) = listed unm g" "listed unm (g\<lparr>gw_registry := r\<rparr>) = listed unm g"
  "listed unm (g\<lparr>gw_online := os\<rparr>) = listed unm g"
  by (simp_all add: listed_def)

lemma bus_say: "gw_bus (say c t g) = gw_bus g"
  by (simp add: say_def)

lemma bus_fold_say: "gw_bus (fold (\<lambda>x. say c (f x)) xs g) = gw_bus g"
  by (induction xs arbitrary: g) (simp_all add: bus_say)

lemma listed_calls [simp]:
  "listed unm (say c t g) = listed unm g" "listed unm (sendError c t g) = listed unm g"
  "listed unm (show_history E i c rn rid g) = listed unm g" "listed unm (snd (broadcast E rn msg g)) = listed unm g"
  "listed unm (remote_JoinRoom E i rn u g) = listed unm g" "listed unm (remote_LeaveRoom E i rn u g) = listed unm g"
  "listed unm (local_JoinRoom E i rn u c g) = listed unm g" "listed unm (close_conn E c w g) = listed unm g"
  by (rule listed_bus, simp add: bus_say sendError_def show_history_def broadcast_def remote_JoinRoom_def remote_LeaveRoom_def
      local_JoinRoom_def close_conn_def Let_def bus_fold_say split: sum.splits prod.splits option.splits)+

lemma listed_reads [simp]:
  "listed unm (snd (recv c g)) = listed unm g" "listed unm (snd (auth_rpc E h g)) = listed unm g"
  by (rule listed_bus, simp add: recv_def auth_rpc_def split: prod.splits sum.splits)+

lemma subjects [simp]:
  "SubjectUserJoined \<noteq> SubjectUserPresence" "SubjectUserLeft \<noteq> SubjectUserPresence" "SubjectMessageSent \<noteq> SubjectUserPresence"
  by (simp_all add: SubjectUserJoined_def SubjectUserLeft_def SubjectMessageSent_def SubjectUserPresence_def)

lemma listed_publish [simp]:
  "subject \<noteq> SubjectUserPresence \<Longrightarrow> listed unm (publish E i subject ev g) = listed unm g"
  by (auto simp: listed_def feed_def publish_def Publish_def split: sum.splits option.splits)

lemma listed_news:
  assumes "e_pub E i = None" and "e_marshal E ev = Inr dat" and "unm dat = Inr (u, b)"
  shows "listed unm (publish E i SubjectUserPresence ev g) = (if b then finsert u (listed unm g) else listed unm g |-| {|u|})"
  using assms
  by (auto simp: listed_def feed_def publish_def Publish_def on_presence_msgs_def on_presence_msg_def SetOnline_def)

text \<open>The steps.\<close>

lemma listed_auth_step: "listed unm (snd (runAuthLoop_step E c pc0 g)) = listed unm g"
  by (simp add: runAuthLoop_step_def auth_menu_def auth_register_def auth_login_def auth_refresh_def Let_def case_prod_unfold
      split: sum.split session.split)

lemma listed_enter:
  assumes "e_pub E 2 = None" and "e_marshal E (UserPresenceEvent u True) = Inr dat" and "unm dat = Inr (u, True)"
  shows "runCommandLoop_enter E c u i g = Inr (pc, g') \<Longrightarrow> listed unm g' = finsert u (listed unm g)"
    and "runCommandLoop_enter E c u i g = Inl g' \<Longrightarrow> listed unm g' = finsert u (listed unm g)"
  using listed_news [OF assms(1,2), of unm u True] assms(3)
  by (auto simp: runCommandLoop_enter_def Let_def split: sum.splits)

lemma listed_message:
  "cmd_message E c u i rn m g = Inr g' \<Longrightarrow> listed unm g' = listed unm g"
  "cmd_message E c u i rn m g = Inl g' \<Longrightarrow> listed unm g' = listed unm g"
  by (simp add: cmd_message_def Let_def case_prod_unfold split: if_splits sum.splits; (hypsubst, simp)+)+

lemma listed_join:
  "cmd_join E c u i rn args g = Inr (pc, g') \<Longrightarrow> listed unm g' = listed unm g"
  "cmd_join E c u i rn args g = Inl g' \<Longrightarrow> listed unm g' = listed unm g"
  by (auto simp: cmd_join_def Let_def split: if_splits option.splits sum.splits)

lemma listed_leave: "listed unm (snd (cmd_leave E c u i rn g)) = listed unm g"
  by (simp add: cmd_leave_def Let_def)

lemma listed_recv: "recv c g = (r, g1) \<Longrightarrow> listed unm g1 = listed unm g"
  by (metis listed_reads(1) snd_conv)

text \<open>A command takes its user off the list exactly when it ends the session; a panic leaves the list as it is.\<close>

lemma listed_command:
  assumes "runCommandLoop_step E c u i rn g = res" and "e_pub E 1 = None"
    and "e_marshal E (UserPresenceEvent u False) = Inr dat" and "unm dat = Inr (u, False)"
  shows "case res of Inl g' \<Rightarrow> listed unm g' = listed unm g
    | Inr (pc, g') \<Rightarrow> listed unm g' = (if pc = Closed then listed unm g |-| {|u|} else listed unm g)"
  using assms(1)
proof (cases rule: command_cases)
  case (closed e g1)
  with listed_news [OF assms(2,3), of unm u False] assms(4) listed_recv [OF closed(1)] show ?thesis by simp
next
  case (join dat g1 args)
  with listed_recv [OF join(1)] show ?thesis
    by (auto dest: listed_join same_accounts_cmd_join split: sum.splits)
next
  case (leave dat g1)
  with listed_recv [OF leave(1)] listed_leave same_accounts_cmd_leave [of g1 E c u i rn] show ?thesis
    by (cases "cmd_leave E c u i rn g1") (auto dest!: arg_cong [where f = "\<lambda>p. listed unm (snd p)"])
next
  case (who dat g1)
  with listed_recv [OF who(1)] show ?thesis
    by (cases "cmd_who E c g1") (auto simp: cmd_who_def split: sum.splits)
next
  case (message dat g1 msg)
  with listed_recv [OF message(1)] show ?thesis
    by (cases "cmd_message E c u i rn msg g1") (auto dest: listed_message)
qed (auto dest: listed_recv)

text \<open>Accounts are never removed, so what holds of all names in the end held of them all along.\<close>

lemma users_step:
  assumes "sys_step (legal_env uuid sign parse) s s'" and "jwt_law sign parse" and "authentic s"
  shows "keeps_users (gw_db (sys_gw s)) (gw_db (sys_gw s'))"
  using assms(1)
proof cases
  case (accept c)
  then show ?thesis by (auto simp: goto_def accept_conn_def keeps_users_refl split: prod.splits option.splits)
next
  case (auth c E)
  obtain pc g where st: "runAuthLoop_step E c (sess s c) (sys_gw s) = (pc, g)" by fastforce
  from acc_auth_step [OF auth(4) assms(2) _ auth(3) st] assms(3) show ?thesis
    unfolding auth(1) st by (auto simp: authentic_def goto_def)
next
  case (enter c u i E r)
  with same_accounts_enter(1) [of E c u i "sys_gw s" "fst r" "snd r"] show ?thesis
    by (simp add: goto_def same_accounts_def keeps_users_def)
next
  case (command c u i rn E r)
  with same_accounts_command(1) [of E c u i rn "sys_gw s" "fst r" "snd r"] show ?thesis
    by (simp add: goto_def same_accounts_def keeps_users_def)
next
  case (panic_enter c u i E g)
  with same_accounts_enter(2) [OF panic_enter(5)] show ?thesis by (simp add: same_accounts_def keeps_users_def)
next
  case (panic_command c u i rn E g)
  with same_accounts_command(2) [OF panic_command(5)] show ?thesis by (simp add: same_accounts_def keeps_users_def)
qed (auto simp: goto_def presence_add_def keeps_users_refl keeps_users_def cleanup_users)

text \<open>One step of the system, as the list of the presence service sees it.\<close>

definition reliable ::
  "uuid_conv \<Rightarrow> (claims \<Rightarrow> string \<Rightarrow> go_error + string) \<Rightarrow>
   (int \<Rightarrow> string \<Rightarrow> (jwt_token \<Rightarrow> go_error + string) \<Rightarrow> go_error + jwt_token) \<Rightarrow> (event \<Rightarrow> go_error + string) \<Rightarrow> env \<Rightarrow> bool" where
  "reliable uuid sign parse marshal E \<longleftrightarrow> legal_env uuid sign parse E \<and> e_marshal E = marshal \<and> (\<forall>i. e_pub E i = None)"

definition names_ok :: "(event \<Rightarrow> go_error + string) \<Rightarrow> (string \<Rightarrow> go_error + string \<times> bool) \<Rightarrow> db_state \<Rightarrow> bool" where
  "names_ok marshal unm db \<longleftrightarrow> (\<forall>usr \<in> set (t_users db). \<forall>b. \<exists>dat.
     marshal (UserPresenceEvent (Username usr) b) = Inr dat \<and> unm dat = Inr (Username usr, b))"

lemma names_okD:
  "names_ok marshal unm db \<Longrightarrow> account db u i \<Longrightarrow>
   \<exists>dat. marshal (UserPresenceEvent u b) = Inr dat \<and> unm dat = Inr (u, b)"
  by (auto simp: names_ok_def account_def)

lemma names_of_session:
  assumes "authentic s" and "names_ok marshal unm (gw_db (sys_gw s))"
  shows "sess s c = Present u i \<Longrightarrow> \<exists>dat. marshal (UserPresenceEvent u True) = Inr dat \<and> unm dat = Inr (u, True)"
    and "sess s c = InRoom u i rn \<Longrightarrow> \<exists>dat. marshal (UserPresenceEvent u False) = Inr dat \<and> unm dat = Inr (u, False)"
  using assms names_okD unfolding authentic_def by (metis session_ok.simps(2), metis session_ok.simps(3))

lemma listed_crash: "listed unm (sys_gw (crash g s)) = listed unm g"
  by (simp add: listed_def)

lemma feed_step:
  assumes "sys_step (reliable uuid sign parse marshal) s s'" and "authentic s" and "names_ok marshal unm (gw_db (sys_gw s))"
  obtains (quiet) "listed unm (sys_gw s') = listed unm (sys_gw s)"
      "\<forall>c. in_rooms_as (sess s' c) = in_rooms_as (sess s c)" "crashed s \<Longrightarrow> crashed s' \<and> sess s' = sess s"
    | (enters) c u i where "sess s c = Present u i" "sess s' = (sess s)(c := InRoom u i defaultRoom)" "\<not> crashed s"
      "listed unm (sys_gw s') = finsert u (listed unm (sys_gw s))"
    | (leaves) c u i rn where "sess s c = InRoom u i rn" "sess s' = (sess s)(c := Closed)" "\<not> crashed s" "\<not> crashed s'"
      "listed unm (sys_gw s') = listed unm (sys_gw s) |-| {|u|}"
    | (panics) c u i where "sess s c = Present u i" "sess s' = sess s" "\<not> crashed s" "crashed s'"
      "listed unm (sys_gw s') = finsert u (listed unm (sys_gw s))"
proof -
  note entering = names_of_session(1) [OF assms(2,3)] and leaving = names_of_session(2) [OF assms(2,3)]
  show thesis
    using assms(1)
  proof cases
  case (accept c)
  then show ?thesis
    by (intro quiet) (auto simp: goto_def accept_conn_def split: prod.splits option.splits)
next
  case (auth c E)
  obtain pc g where st: "runAuthLoop_step E c (sess s c) (sys_gw s) = (pc, g)" by fastforce
  have "in_rooms_as pc = None"
    using auth_next [OF st auth(3)] auth(3) by (cases "sess s c") auto
  moreover have "in_rooms_as (sess s c) = None" using auth(3) by (cases "sess s c") auto
  ultimately show ?thesis
    using auth(1,2) st listed_auth_step [of unm E c "sess s c" "sys_gw s"] by (intro quiet) (auto simp: goto_def)
next
  case (present c u i)
  then show ?thesis by (intro quiet) (auto simp: goto_def presence_add_def)
next
  case (enter c u i E r)
  from entering [OF enter(3)] obtain dat
    where dat: "marshal (UserPresenceEvent u True) = Inr dat" "unm dat = Inr (u, True)" by blast
  obtain pc g where r: "r = (pc, g)" by fastforce
  have "listed unm g = finsert u (listed unm (sys_gw s))"
    using enter(4) dat by (intro listed_enter(1) [OF _ _ _ enter(5) [unfolded r]]) (auto simp: reliable_def)
  moreover have "pc = InRoom u i defaultRoom" using same_accounts_enter(1) [OF enter(5) [unfolded r]] by blast
  ultimately show ?thesis using enter(1-3) r by (intro enters [of c u i]) (simp_all add: goto_def)
next
  case (command c u i rn E r)
  from leaving [OF command(3)] obtain dat
    where dat: "marshal (UserPresenceEvent u False) = Inr dat" "unm dat = Inr (u, False)" by blast
  obtain pc g where r: "r = (pc, g)" by fastforce
  have l: "listed unm g = (if pc = Closed then listed unm (sys_gw s) |-| {|u|} else listed unm (sys_gw s))"
    using command(4) dat listed_command [OF command(5) [unfolded r], of dat unm] by (auto simp: reliable_def)
  from same_accounts_command(1) [OF command(5) [unfolded r]] consider "pc = Closed" | rn' where "pc = InRoom u i rn'" by blast
  then show ?thesis
  proof cases
    case 1
    with command(1-3) l r show ?thesis by (intro leaves [of c u i rn]) (simp_all add: goto_def)
  next
    case 2
    with command(1-3) l r show ?thesis by (intro quiet) (simp_all add: goto_def)
  qed
next
  case (panic_enter c u i E g)
  from entering [OF panic_enter(3)] obtain dat
    where dat: "marshal (UserPresenceEvent u True) = Inr dat" "unm dat = Inr (u, True)" by blast
  have "listed unm g = finsert u (listed unm (sys_gw s))"
    using panic_enter(4) dat by (intro listed_enter(2) [OF _ _ _ panic_enter(5)]) (auto simp: reliable_def)
  then show ?thesis using panic_enter(1-3) by (intro panics [of c u i]) (simp_all add: listed_crash)
next
  case (panic_command c u i rn E g)
  from leaving [OF panic_command(3)] obtain dat
    where dat: "marshal (UserPresenceEvent u False) = Inr dat" "unm dat = Inr (u, False)" by blast
  then have "listed unm g = listed unm (sys_gw s)"
    using panic_command(4) listed_command [OF panic_command(5), of dat unm] by (auto simp: reliable_def)
  then show ?thesis using panic_command(1,2) by (intro quiet) (simp_all add: listed_crash)
qed (auto intro: quiet)
qed

lemma in_rooms_as_Some: "in_rooms_as pc = Some u \<Longrightarrow> \<exists>i rn. pc = InRoom u i rn"
  by (cases pc) auto

lemma reliable_authentic:
  assumes "sys_reachable (reliable uuid sign parse marshal) s" and "jwt_law sign parse"
  shows "authentic s"
proof -
  have "sys_reachable (legal_env uuid sign parse) s" using assms(1) by (rule sys_reachable_mono) (simp add: reliable_def)
  then show ?thesis by induction (auto intro: authentic_init authentic_step [OF _ assms(2)])
qed

text \<open>Whoever is listed has a session in the command loop; after a panic, or one that was entering it.\<close>

lemma listed_in_rooms:
  assumes "sys_reachable (reliable uuid sign parse marshal) s" and "jwt_law sign parse"
    and "names_ok marshal unm (gw_db (sys_gw s))" and "u |\<in>| listed unm (sys_gw s)"
  shows "\<exists>c. in_rooms_as (sess s c) = Some u \<or> crashed s \<and> (\<exists>i. sess s c = Present u i)"
  using assms(1,3,4)
proof (induction arbitrary: u)
  case (start db sec net)
  then show ?case by (simp add: sys_init_def start_gateway_def listed_def feed_def on_presence_msgs_def NewOnlineStore_def)
next
  case (step s s')
  note auth = reliable_authentic [OF step(1) assms(2)]
  have "sys_step (legal_env uuid sign parse) s s'" using step(2) by (rule sys_step_mono) (simp add: reliable_def)
  from users_step [OF this assms(2) auth] have ok: "names_ok marshal unm (gw_db (sys_gw s))"
    using step(4) by (auto simp: names_ok_def keeps_users_def)
  from step(2) auth ok show ?case
  proof (cases rule: feed_step)
    case quiet
    with step(3) [OF ok, of u] step(5) show ?thesis by metis
  next
    case (enters c v i)
    show ?thesis
    proof (cases "u = v")
      case False
      with step(3) [OF ok, of u] step(5) enters(3,4) obtain d where "in_rooms_as (sess s d) = Some u" by auto
      moreover from this have "d \<noteq> c" using enters(1) by auto
      ultimately show ?thesis unfolding enters(2) by (intro exI [of _ d]) simp
    qed (auto simp: enters(2))
  next
    case (leaves c v i rn)
    with step(3) [OF ok, of u] step(5) obtain d where "in_rooms_as (sess s d) = Some u" "u \<noteq> v" by auto
    moreover from this have "d \<noteq> c" using leaves(1) by auto
    ultimately show ?thesis unfolding leaves(2) by (intro exI [of _ d]) simp
  next
    case (panics c v i)
    with step(3) [OF ok, of u] step(5) show ?thesis by (cases "u = v") auto
  qed
qed

text \<open>Who enters is listed, who leaves is not, and a panic takes nobody off.\<close>

lemma listed_moves:
  assumes "sys_step (reliable uuid sign parse marshal) s s'" and "authentic s"
    and "names_ok marshal unm (gw_db (sys_gw s))"
  shows "(sess s c = Present u i \<and> sess s' c = InRoom u i rn \<longrightarrow> u |\<in>| listed unm (sys_gw s')) \<and>
    (sess s c = InRoom u i rn \<and> sess s' c = Closed \<longrightarrow> u |\<notin>| listed unm (sys_gw s')) \<and>
    (crashed s' \<longrightarrow> listed unm (sys_gw s) |\<subseteq>| listed unm (sys_gw s'))"
  using assms
proof (cases rule: feed_step)
  case quiet
  from quiet(2) [rule_format, of c] show ?thesis unfolding quiet(1) by auto
next
  case (enters d v j)
  then show ?thesis unfolding enters(4) by (cases "c = d"; cases "sess s c") (simp_all add: fsubset_finsertI)
next
  case (leaves d v j rn')
  then show ?thesis by (cases "c = d"; cases "sess s c") simp_all
next
  case (panics d v j)
  show ?thesis unfolding panics(2,5) by (auto simp: fsubset_finsertI)
qed

section \<open>Properties\<close>

text \<open>
  C5. The list of online users, from the gateway through NATS to the presence service: suppose every
  publication succeeds and the service has received all of them in order. Then whoever it lists has a
  session in the command loop; a session that enters puts its user on the list; and a session that ends
  takes its user off, even when the same user has another session that stays. A panic of the gateway is
  the exception: the entering session publishes its user before the call that may panic, so after a panic
  the list may also name a user whose session had not entered yet, and from the panic on nobody is
  taken off the list, although all sessions ended with the process.
\<close>

theorem presence_follows_sessions:
  assumes "sys_reachable (reliable uuid sign parse marshal) s" and "jwt_law sign parse"
    and "names_ok marshal unm (gw_db (sys_gw s))" and "iteration_order ord"
  shows "(\<forall>u \<in> set (ListOnline ord (feed unm (gw_bus (sys_gw s)))).
      \<exists>c i. (\<exists>rn. sess s c = InRoom u i rn) \<or> crashed s \<and> sess s c = Present u i) \<and>
    (\<forall>s' c u i rn. sys_step (reliable uuid sign parse marshal) s s' \<longrightarrow>
      (sess s c = Present u i \<and> sess s' c = InRoom u i rn \<longrightarrow> u \<in> set (ListOnline ord (feed unm (gw_bus (sys_gw s'))))) \<and>
      (sess s c = InRoom u i rn \<and> sess s' c = Closed \<longrightarrow> u \<notin> set (ListOnline ord (feed unm (gw_bus (sys_gw s'))))) \<and>
      (crashed s' \<longrightarrow>
        set (ListOnline ord (feed unm (gw_bus (sys_gw s)))) \<subseteq> set (ListOnline ord (feed unm (gw_bus (sys_gw s'))))))"
proof -
  have list: "set (ListOnline ord (feed unm (gw_bus g))) = fset (listed unm g)" for g
    using assms(4) by (simp add: ListOnline_def listed_def iteration_order_set)
  have "\<exists>c i. (\<exists>rn. sess s c = InRoom u i rn) \<or> crashed s \<and> sess s c = Present u i" if "u |\<in>| listed unm (sys_gw s)" for u
    using listed_in_rooms [OF assms(1-3) that] in_rooms_as_Some by blast
  then show ?thesis
    unfolding list less_eq_fset.rep_eq [symmetric]
    by (intro conjI [OF ballI]) (blast, intro allI impI, rule listed_moves [OF _ reliable_authentic [OF assms(1,2)] assms(3)])
qed

theorem presence_follows_sessions_witness:
  "\<exists>s. sys_reachable (reliable Some run_sign run_parse run_marshal) s \<and> sess s 7 = InRoom ''alice'' ''u1'' defaultRoom \<and>
     ''alice'' \<in> set (ListOnline sorted_list_of_fset (feed (\<lambda>m. Inr (tl m, hd m = CHR ''+'')) (gw_bus (sys_gw s))))"
proof -
  let ?L = "reliable Some run_sign run_parse run_marshal"
  let ?unm = "\<lambda>m. Inr (tl m, hd m = CHR ''+'')"
  have L: "?L run_env" using run_env_legal by (simp add: reliable_def run_env_def)
  obtain s where s: "sys_reachable ?L s" "sess s 7 = Authenticated ''alice'' ''u1''" "\<not> crashed s"
    using run_reaches [where L = ?L, OF L] by blast
  let ?s1 = "goto 7 (presence_add 7 ''alice'' ''u1'' (sys_gw s)) s"
  have s1: "sys_reachable ?L ?s1" "sess ?s1 7 = Present ''alice'' ''u1''" "\<not> crashed ?s1"
    using sys_reachable.step [OF s(1) sys_step.present [OF s(3,2)]] s(3) by (simp_all add: goto_def presence_add_def)
  obtain g where g: "runCommandLoop_enter run_env 7 ''alice'' ''u1'' (sys_gw ?s1) = Inr (InRoom ''alice'' ''u1'' defaultRoom, g)"
    by (auto simp: runCommandLoop_enter_def Let_def remote_GetRoomID_def rpc_def run_env_def grpc_GetRoomID_def)
  let ?s2 = "goto 7 (InRoom ''alice'' ''u1'' defaultRoom, g) ?s1"
  have step: "sys_step ?L ?s1 ?s2" by (rule sys_step.enter [where L = ?L and E = run_env, OF s1(3,2) L g])
  have names: "names_ok run_marshal ?unm db" for db by (simp add: names_ok_def)
  have s2: "sess ?s2 7 = InRoom ''alice'' ''u1'' defaultRoom" by (simp add: goto_def)
  from presence_follows_sessions [OF s1(1) one_token_law names iteration_order_sorted, THEN conjunct2, rule_format,
      OF step, THEN conjunct1, rule_format, OF conjI, OF s1(2) s2] sys_reachable.step [OF s1(1) step] s2
  show ?thesis by (intro exI [of _ ?s2]) simp
qed

end
