(* ===== verification/RoomIds.thy ===== *)
theory RoomIds
  imports System
begin

text \<open>
  The identity of rooms across the system. The messaging service's store and the gateway's router each
  look a room up or create it on their own; the invariant here says that what both hold is the row of
  the database, in every reachable state, and that a row once there stays.
\<close>

section \<open>The invariant\<close>

definition router_rows :: "router \<Rightarrow> db_state \<Rightarrow> bool" where
  "router_rows rt db \<longleftrightarrow> (\<forall>n e. fmlookup (rt_rooms rt) n = Some e \<longrightarrow>
     map_option room_ID (active_room db n) = Some (room_ID (Room e)) \<and> Name (Room e) = n)"

definition rooms_ok :: "gateway \<Rightarrow> bool" where
  "rooms_ok g \<longleftrightarrow> db_inv (gw_db g) \<and> ids_agree active_room (gw_rooms g) (gw_db g) \<and> router_rows (gw_router g) (gw_db g)"

definition rows_stay :: "db_state \<Rightarrow> db_state \<Rightarrow> bool" where
  "rows_stay db db' \<longleftrightarrow> (\<forall>n rm. active_room db n = Some rm \<longrightarrow> active_room db' n = Some rm)"

text \<open>What a step may do to a consistent gateway.\<close>

definition rooms_move :: "gateway \<Rightarrow> gateway \<Rightarrow> bool" where
  "rooms_move g g' \<longleftrightarrow> (rooms_ok g \<longrightarrow> rooms_ok g' \<and> rows_stay (gw_db g) (gw_db g'))"

lemma rows_stay_refl: "rows_stay db db"
  by (simp add: rows_stay_def)

lemma rows_stay_trans: "rows_stay db db' \<Longrightarrow> rows_stay db' db'' \<Longrightarrow> rows_stay db db''"
  by (simp add: rows_stay_def)

lemma rooms_move_refl: "rooms_move g g"
  by (simp add: rooms_move_def rows_stay_refl)

lemma rooms_move_trans: "rooms_move g g' \<Longrightarrow> rooms_move g' g'' \<Longrightarrow> rooms_move g g''"
  by (auto simp: rooms_move_def intro: rows_stay_trans)

lemma ids_agree_stay: "rows_stay db db' \<Longrightarrow> ids_agree active_room st db \<Longrightarrow> ids_agree active_room st db'"
  unfolding rows_stay_def ids_agree_def by blast

lemma router_rows_stay: "rows_stay db db' \<Longrightarrow> router_rows rt db \<Longrightarrow> router_rows rt db'"
  unfolding rows_stay_def router_rows_def by fastforce

text \<open>A change of the database alone that keeps the schema and the rows of rooms.\<close>

lemma rooms_move_db:
  assumes "gw_rooms g' = gw_rooms g" and "gw_router g' = gw_router g"
    and "db_inv (gw_db g) \<Longrightarrow> db_inv (gw_db g')" and "rows_stay (gw_db g) (gw_db g')"
  shows "rooms_move g g'"
  using assms by (auto simp: rooms_move_def rooms_ok_def intro: ids_agree_stay router_rows_stay)

lemma rooms_move_fields:
  "gw_rooms g' = gw_rooms g \<Longrightarrow> gw_router g' = gw_router g \<Longrightarrow> gw_db g' = gw_db g \<Longrightarrow> rooms_move g g'"
  by (rule rooms_move_db) (simp_all add: rows_stay_refl)

lemma rooms_move_net: "same_but_net g g' \<Longrightarrow> rooms_move g g'"
  by (rule rooms_move_fields) (simp_all add: same_but_net_def)

lemma rows_stay_tables: "t_rooms db' = t_rooms db \<Longrightarrow> rows_stay db db'"
  by (simp add: rows_stay_def active_room_def)

section \<open>Joining and leaving\<close>

definition fresh_ids :: "env \<Rightarrow> bool" where
  "fresh_ids E \<longleftrightarrow> (\<forall>i. e_uuid E (e_id E i) = Some (e_id E i))"

lemma legal_fresh: "legal_env uuid sign parse E \<Longrightarrow> fresh_ids E"
  by (simp add: legal_env_def fresh_ids_def)

lemma canonical_new: "fresh_ids E \<Longrightarrow> canonical_room (e_uuid E) (NewRoom (e_id E i) t n)"
  by (simp add: fresh_ids_def canonical_room_def NewRoom_def)

lemma rooms_move_remote_join:
  assumes "fresh_ids E"
  shows "rooms_move g (remote_JoinRoom E i rn u g)"
proof -
  obtain res rs db where j: "rs_JoinRoom (pg_room_repo (e_uuid E) (e_ts E) (e_sql E i)) (e_id E i) (e_now E) rn u
      (gw_rooms g, gw_db g) = (res, rs, db)" by (metis prod_cases3)
  have "rooms_ok (g\<lparr>gw_rooms := rs, gw_db := db\<rparr>) \<and> rows_stay (gw_db g) db" if "rooms_ok g"
  proof -
    note ok = that [unfolded rooms_ok_def]
    note ids = pg_rooms.rs_join_ids [OF _ canonical_new [OF assms] _ j]
    have stay: "rows_stay (gw_db g) db" using ids(3) ok by (simp add: rows_stay_def)
    with ids(1,2) ok show ?thesis by (simp add: rooms_ok_def router_rows_stay)
  qed
  with j show ?thesis
    by (cases "e_rpc E i"; cases res)
      (auto simp: remote_JoinRoom_def rpc_def grpc_JoinRoom_def rooms_move_def rows_stay_refl)
qed

lemma rooms_move_local_join:
  assumes "fresh_ids E"
  shows "rooms_move g (local_JoinRoom E i rn u c g)"
proof -
  obtain res rt db where j: "rt_JoinRoom (pg_room_repo (e_uuid E) (e_ts E) (e_sql E i)) (e_id E i) (e_now E) rn u (Some c)
      (gw_router g, gw_db g) = (res, rt, db)" by (metis prod_cases3)
  have "db_inv db \<and> router_rows rt db \<and> rows_stay (gw_db g) db" if "rooms_ok g"
  proof -
    note ok = that [unfolded rooms_ok_def]
    note spec = pg_rooms.find_or_create_spec [OF _ canonical_new [OF assms]]
    from j show ?thesis
    proof (cases rule: rt_join_cases)
      case (known cn e)
      with ok show ?thesis by (auto simp: router_rows_def rows_stay_refl)
    next
      case (new cn rm)
      have stay: "rows_stay (gw_db g) db" using spec(2) [OF _ new(3)] ok by (simp add: rows_stay_def)
      moreover have "map_option room_ID (active_room db rn) = Some (room_ID rm) \<and> Name rm = rn"
        using spec(3) [OF _ new(3) refl] ok by simp
      ultimately have "router_rows rt db"
        using router_rows_stay [OF stay, of "gw_router g"] ok new(5) by (auto simp: router_rows_def)
      with stay spec(1) [OF _ new(3)] ok show ?thesis by simp
    next
      case (failed e)
      have stay: "rows_stay (gw_db g) db" using spec(2) [OF _ failed(2)] ok by (simp add: rows_stay_def)
      with spec(1) [OF _ failed(2)] failed(4) ok router_rows_stay [OF stay] show ?thesis by simp
    qed simp
  qed
  with j show ?thesis
    by (auto simp: local_JoinRoom_def rooms_move_def rooms_ok_def intro: ids_agree_stay)
qed

lemma rooms_move_remote_leave: "rooms_move g (remote_LeaveRoom E i rn u g)"
proof -
  obtain res rs where l: "rs_LeaveRoom rn u (gw_rooms g) = (res, rs)" by fastforce
  have "ids_agree active_room rs (gw_db g)" if "rooms_ok g"
    using rs_leave_ids [OF l, of active_room "gw_db g"] that by (simp add: rooms_ok_def)
  with l show ?thesis
    by (cases "e_rpc E i"; cases res)
      (auto simp: remote_LeaveRoom_def rpc_def grpc_LeaveRoom_def rooms_move_def rooms_ok_def rows_stay_refl)
qed

lemma router_rows_disconnect:
  "iteration_order ord \<Longrightarrow> router_rows rt db \<Longrightarrow> router_rows (rt_Disconnect ord u rt) db"
  by (auto simp: router_rows_def rt_disconnect_lookup split: option.splits if_splits)

lemma rooms_move_close: "iteration_order (e_ord E) \<Longrightarrow> rooms_move g (close_conn E c u g)"
  by (cases u) (auto simp: rooms_move_def rooms_ok_def close_conn_def Let_def rows_stay_refl router_rows_disconnect)

section \<open>The other changes of the database\<close>

lemma message_rooms: "t_rooms (snd (MessageRepo_Create uuid ts q m db)) = t_rooms db"
  by (auto simp: MessageRepo_Create_def exec_sql_def split: sql.splits option.splits if_splits sum.splits)

lemma rooms_move_message: "gw_db g = db \<Longrightarrow> rooms_move g (g\<lparr>gw_db := snd (MessageRepo_Create uuid ts q m db)\<rparr>)"
  by (rule rooms_move_db) (auto intro: MessageRepo_Create_inv rows_stay_tables message_rooms)

text \<open>The cleanup deletes rooms that are soft-deleted only.\<close>

lemma find_filter_keep: "(\<And>x. P x \<Longrightarrow> K x) \<Longrightarrow> find P (filter K xs) = find P xs"
  by (induction xs) auto

lemma delete_rooms_active: "delete_rooms cutoff db = Inr db' \<Longrightarrow> active_room db' = active_room db"
  by (auto simp: delete_rooms_def active_room_def Let_def fun_eq_iff split: if_splits intro!: find_filter_keep)

lemma runCleanup_active: "active_room (snd (runCleanup ago q1 q2 n1 n2 retention db)) = active_room db"
proof -
  have msgs: "active_room (snd (exec_sql q1 w (delete_messages cut) db)) = active_room db" for w cut
    by (cases q1) (auto simp: exec_sql_def delete_messages_def active_room_def)
  have rooms: "active_room (snd (exec_sql q2 w (delete_rooms cut) d)) = active_room d" for w cut d
    by (cases q2) (auto simp: exec_sql_def split: sum.splits dest: delete_rooms_active)
  show ?thesis
    unfolding runCleanup_def Let_def using msgs rooms by (auto split: prod.splits option.splits) (metis snd_conv)+
qed

lemma cleanup_active: "active_room (cleanup_worker ago retention runs db) = active_room db"
  by (induction ago retention runs db rule: cleanup_worker.induct) (simp_all add: runCleanup_active)

text \<open>The auth handlers write users only.\<close>

definition users_only :: "db_state \<Rightarrow> db_state \<Rightarrow> bool" where
  "users_only db db' \<longleftrightarrow> t_rooms db' = t_rooms db \<and> (db_inv db \<longrightarrow> db_inv db')"

lemma auth_users_only:
  "fst call \<in> range (pg_user_repo uuid ts) \<Longrightarrow> Register authService call u p st = (e, st') \<Longrightarrow> users_only (snd st) (snd st')"
  "fst call \<in> range (pg_user_repo uuid ts) \<Longrightarrow> Login authService call u p st = (r, st') \<Longrightarrow> snd st' = snd st"
  "fst call \<in> range (pg_user_repo uuid ts) \<Longrightarrow> Refresh authService call t st = (r, st') \<Longrightarrow> snd st' = snd st"
proof -
  assume call: "fst call \<in> range (pg_user_repo uuid ts)"
  then obtain q where q: "fst call = pg_user_repo uuid ts q" by blast
  obtain as db where st: "st = (as, db)" by fastforce
  obtain as' db' where st': "st' = (as', db')" by fastforce
  show "snd st' = snd st" if "Login authService call u p st = (r, st')"
    using that q st st' as_Login_frame(1) by (cases call) (auto simp: authService_def)
  show "snd st' = snd st" if "Refresh authService call t st = (r, st')"
    using that q st st' as_Refresh_frame(1) by (cases call) (auto simp: authService_def)
  assume "Register authService call u p st = (e, st')"
  then have "as_Register (pg_user_repo uuid ts q) (snd call) u p (as, db) = (e, as', db')"
    using q st st' by (cases call) (simp add: authService_def)
  then have db': "db' = db \<or> (\<exists>usr. db' = snd (UserRepo_Create uuid ts q usr db))"
    by (auto simp: as_Register_def as_Register_create_def dest!: create_snd
        split: option.splits sum.splits prod.splits)
  have keep: "t_rooms (snd (UserRepo_Create uuid ts q usr db)) = t_rooms db" for usr
    by (auto simp: UserRepo_Create_def exec_sql_def split: sql.splits option.splits if_splits sum.splits)
  from db' show "users_only (snd st) (snd st')"
    using keep UserRepo_Create_inv by (auto simp: users_only_def st st')
qed

lemma grpc_users_only:
  assumes "fst call \<in> range (pg_user_repo uuid ts)"
  shows "users_only (snd st) (snd (snd (grpc_Register authService call u p st)))"
    and "users_only (snd st) (snd (snd (grpc_Login authService call u p st)))"
    and "users_only (snd st) (snd (snd (grpc_Refresh authService call t st)))"
  by (auto simp: grpc_Register_def grpc_Login_def grpc_Refresh_def users_only_def
      split: prod.splits sum.splits option.splits
      dest!: auth_users_only [OF assms])

lemma rooms_move_auth_rpc:
  assumes h: "\<And>call st. fst call \<in> range (pg_user_repo (e_uuid E) (e_ts E)) \<Longrightarrow> users_only (snd st) (snd (snd (h call st)))"
    and "auth_rpc E h g = (res, g')"
  shows "rooms_move g g'"
proof -
  let ?fn = "\<lambda>i. rpc (e_rpc E i) (h (pg_user_repo (e_uuid E) (e_ts E) (e_sql E i), e_auth E i))"
  let ?I = "\<lambda>st. users_only (gw_db g) (snd st)"
  obtain sleeps as db where retry: "retry_from 1 ?fn 3 1000000000 (gw_auth g, gw_db g) = (res, sleeps, (as, db))"
    and g': "g' = g\<lparr>gw_auth := as, gw_db := db\<rparr>"
    using assms(2) by (auto simp: auth_rpc_def callWithRetry_def split: prod.splits)
  have "?I (as, db) \<and> (\<forall>r. res = Inr r \<longrightarrow> True)"
  proof (rule retry_from_inv [where I = ?I and fn = ?fn and P = "\<lambda>r st. True", OF _ _ _ retry])
    show "?I (snd (?fn i st))" if "?I st" for i st
      using h [of "(pg_user_repo (e_uuid E) (e_ts E) (e_sql E i), e_auth E i)" st] that
      by (cases "e_rpc E i") (simp_all add: rpc_def users_only_def)
  qed (simp_all add: users_only_def)
  then show ?thesis unfolding g' by (intro rooms_move_db) (auto simp: users_only_def intro: rows_stay_tables)
qed

lemma rooms_move_rpcs:
  "auth_rpc E (\<lambda>call. grpc_Register authService call u p) g = (a, g') \<Longrightarrow> rooms_move g g'"
  "auth_rpc E (\<lambda>call. grpc_Login authService call u p) g = (a, g') \<Longrightarrow> rooms_move g g'"
  "auth_rpc E (\<lambda>call. grpc_Refresh authService call t) g = (b, g') \<Longrightarrow> rooms_move g g'"
  by (erule rooms_move_auth_rpc [rotated], erule grpc_users_only)+

section \<open>Preservation\<close>

lemma rooms_move_updates:
  "rooms_move g (g\<lparr>gw_msgLimiter := l\<rparr>)" "rooms_move g (g\<lparr>gw_regLimiter := rl\<rparr>)" "rooms_move g (g\<lparr>gw_net := n\<rparr>)"
  by (rule rooms_move_fields; simp)+

lemmas rooms_move_quiet = rooms_move_net [OF same_but_net_say] rooms_move_net [OF same_but_net_publish]
  rooms_move_net [OF same_but_net_broadcast] rooms_move_net [OF same_but_net_history]
  rooms_move_net [OF same_but_net_sendError] rooms_move_remote_leave rooms_move_updates

lemmas rooms_move_chain = rooms_move_quiet [THEN [2] rooms_move_trans]
  rooms_move_remote_join [THEN [2] rooms_move_trans] rooms_move_local_join [THEN [2] rooms_move_trans]
  rooms_move_close [THEN [2] rooms_move_trans]

lemma rooms_move_cmd_join:
  "cmd_join E c u i rn args g = Inr (pc, g') \<Longrightarrow> fresh_ids E \<Longrightarrow> rooms_move g g'"
  "cmd_join E c u i rn args g = Inl g' \<Longrightarrow> fresh_ids E \<Longrightarrow> rooms_move g g'"
  unfolding cmd_join_def Let_def
  by (auto split: if_splits option.splits sum.splits intro!: rooms_move_chain rooms_move_refl)

lemma rooms_move_cmd_leave: "fresh_ids E \<Longrightarrow> rooms_move g (snd (cmd_leave E c u i rn g))"
  unfolding cmd_leave_def Let_def by (auto intro!: rooms_move_chain rooms_move_refl)

lemma rooms_move_cmd_message:
  assumes "cmd_message E c u i rn msg g \<in> {Inl g', Inr g'}"
  shows "rooms_move g g'"
proof -
  obtain ok l where a: "BucketRegistry_Allow (e_clk_msg E) u (gw_msgLimiter g) = (ok, l)" by fastforce
  obtain err g1 where b: "broadcast E rn (NewMessage (e_id E 1) (e_now E) u msg) (g\<lparr>gw_msgLimiter := l\<rparr>) = (err, g1)" by fastforce
  have g1: "g1 = snd (broadcast E rn (NewMessage (e_id E 1) (e_now E) u msg) (g\<lparr>gw_msgLimiter := l\<rparr>))" using b by simp
  have g: "rooms_move g g1" unfolding g1 by (intro rooms_move_chain rooms_move_refl)
  have msg: "rooms_move g x \<Longrightarrow> gw_db x = db \<Longrightarrow> rooms_move g (x\<lparr>gw_db := snd (MessageRepo_Create uuid ts q m db)\<rparr>)"
    for x db uuid ts q m using rooms_move_message rooms_move_trans by blast
  show ?thesis
    using assms a b g unfolding cmd_message_def Let_def
    by (auto split: if_splits sum.splits intro!: msg rooms_move_chain intro: rooms_move_refl)
qed

lemma rooms_move_enter:
  "runCommandLoop_enter E c u i g = Inr (pc, g') \<Longrightarrow> fresh_ids E \<Longrightarrow> rooms_move g g'"
  "runCommandLoop_enter E c u i g = Inl g' \<Longrightarrow> fresh_ids E \<Longrightarrow> rooms_move g g'"
  unfolding runCommandLoop_enter_def Let_def
  by (auto split: sum.splits intro!: rooms_move_chain rooms_move_refl)

text \<open>A command, whether it answers or panics.\<close>

lemma rooms_move_command:
  assumes "runCommandLoop_step E c u i rn g = res" and E: "fresh_ids E" "iteration_order (e_ord E)"
  shows "rooms_move g (case res of Inl g' \<Rightarrow> g' | Inr (pc, g') \<Rightarrow> g')"
proof -
  have recv: "recv c g = (r, g1) \<Longrightarrow> rooms_move g1 x \<Longrightarrow> rooms_move g x" for r g1 x
    by (rule rooms_move_trans [OF rooms_move_net [OF same_but_net_recv]])
  show ?thesis
    using assms(1)
  proof (cases rule: command_cases)
    case (closed e g1)
    then show ?thesis by (auto intro!: rooms_move_chain intro: E recv rooms_move_refl)
  next
    case (join dat g1 args)
    then show ?thesis
      by (auto dest: rooms_move_cmd_join [OF _ E(1)] intro: recv split: sum.splits prod.splits)
  next
    case (leave dat g1)
    with rooms_move_cmd_leave [OF E(1), of g1 c u i rn] show ?thesis
      by (cases "cmd_leave E c u i rn g1") (auto intro: recv)
  next
    case (who dat g1)
    then show ?thesis
      by (cases "cmd_who E c g1") (auto simp: cmd_who_def split: sum.splits intro: recv rooms_move_quiet rooms_move_refl)
  next
    case (message dat g1 msg)
    then show ?thesis
      by (cases "cmd_message E c u i rn msg g1") (auto intro: recv rooms_move_cmd_message)
  qed (auto intro!: rooms_move_chain intro: recv rooms_move_refl)
qed

lemma rooms_move_auth:
  assumes "runAuthLoop_step E c pc0 g = (pc, g')" and "in_auth pc0" and E: "iteration_order (e_ord E)"
  shows "rooms_move g g'"
proof -
  obtain r g1 where r: "recv c g = (r, g1)" by fastforce
  note s1 = rooms_move_net [OF same_but_net_recv [OF r]]
  have "rooms_move g1 g'"
    using assms r
    by (cases r; cases pc0)
      (auto simp: runAuthLoop_step_def auth_menu_def auth_register_def auth_login_def auth_refresh_def Let_def
        split: prod.splits sum.splits if_splits intro!: rooms_move_chain intro: rooms_move_refl dest: rooms_move_rpcs)
  with s1 show ?thesis by (rule rooms_move_trans)
qed

text \<open>After a panic the database and the messaging service are as the step left them; the gateway's router is as it was.\<close>

lemma rooms_move_crash: "rooms_move (sys_gw s) g \<Longrightarrow> rooms_move (sys_gw s) (sys_gw (crash g s))"
  by (auto simp: rooms_move_def rooms_ok_def intro: router_rows_stay)

lemma rooms_move_step:
  assumes "sys_step (legal_env uuid sign parse) s s'"
  shows "rooms_move (sys_gw s) (sys_gw s')"
  using assms
proof cases
  case (accept c)
  then show ?thesis
    by (auto simp: goto_def accept_conn_def split: prod.splits option.splits intro!: rooms_move_fields)
next
  case (auth c E)
  obtain pc g where st: "runAuthLoop_step E c (sess s c) (sys_gw s) = (pc, g)" by fastforce
  with rooms_move_auth [OF st auth(3)] auth(1,4) show ?thesis by (simp add: goto_def legal_env_def)
next
  case (present c u i)
  then show ?thesis by (auto simp: goto_def presence_add_def intro: rooms_move_fields)
next
  case (enter c u i E r)
  with rooms_move_enter(1) [of E c u i "sys_gw s" "fst r" "snd r"] legal_fresh show ?thesis by (auto simp: goto_def)
next
  case (command c u i rn E r)
  with rooms_move_command [OF command(5) legal_fresh [OF command(4)]] show ?thesis
    by (simp add: goto_def legal_env_def case_prod_unfold)
next
  case (panic_enter c u i E g)
  then show ?thesis using rooms_move_enter(2) [OF panic_enter(5) legal_fresh [OF panic_enter(4)]] by (auto intro: rooms_move_crash)
next
  case (panic_command c u i rn E g)
  then show ?thesis
    using rooms_move_command [OF panic_command(5) legal_fresh [OF panic_command(4)]] panic_command(4) by (auto simp: legal_env_def intro: rooms_move_crash)
next
  case (cleanup ago retention runs)
  then show ?thesis
    by (auto intro!: rooms_move_db simp: cleanup_worker_inv rows_stay_def cleanup_active)
qed (auto intro: rooms_move_fields)

lemma rooms_ok_init: "db_inv db \<Longrightarrow> rooms_ok (sys_gw (sys_init sec db net))"
  by (simp add: rooms_ok_def sys_init_def start_gateway_def NewRoomStore_def NewInMemoryMessageRouter_def
      ids_agree_def router_rows_def)

lemma reachable_rooms_ok: "sys_reachable (legal_env uuid sign parse) s \<Longrightarrow> rooms_ok (sys_gw s)"
proof (induction rule: sys_reachable.induct)
  case (step s s')
  then show ?case using rooms_move_step rooms_move_def by blast
qed (rule rooms_ok_init)

lemma run_rooms:
  assumes "(sys_step (legal_env uuid sign parse))\<^sup>*\<^sup>* s s'" and "rooms_ok (sys_gw s)"
  shows "rooms_ok (sys_gw s') \<and> rows_stay (gw_db (sys_gw s)) (gw_db (sys_gw s'))"
  using assms
proof (induction rule: rtranclp_induct)
  case (step s1 s2)
  then show ?case using rooms_move_step [OF step(2)] unfolding rooms_move_def by (blast intro: rows_stay_trans)
qed (simp add: rows_stay_refl)

section \<open>Properties\<close>

text \<open>
  C6. One identity per room: in every reachable state, a room the messaging service or the gateway's
  router holds is an active row of that name in the rooms table, both know it by the row's ID, and the
  names the router lists are the names it is joined under; along every further run of the system the
  rows stay, so a room never changes its ID, even if it empties and is joined again.
\<close>

theorem room_ids_consistent:
  assumes "sys_reachable (legal_env uuid sign parse) s" and "(sys_step (legal_env uuid sign parse))\<^sup>*\<^sup>* s s'"
  shows "(\<forall>n. n |\<in>| fmdom (rs_rooms (gw_rooms (sys_gw s))) \<longrightarrow>
      map_option room_ID (active_room (gw_db (sys_gw s)) n) = Some (rs_GetRoomID n (gw_rooms (sys_gw s)))) \<and>
    (\<forall>n. n |\<in>| fmdom (rt_rooms (gw_router (sys_gw s))) \<longrightarrow>
      map_option room_ID (active_room (gw_db (sys_gw s)) n) = Some (rt_GetRoomID n (gw_router (sys_gw s)))) \<and>
    (\<forall>ord. iteration_order ord \<longrightarrow>
      set (rt_ListRooms ord (gw_router (sys_gw s))) = fset (fmdom (rt_rooms (gw_router (sys_gw s))))) \<and>
    (\<forall>n rm. active_room (gw_db (sys_gw s)) n = Some rm \<longrightarrow> active_room (gw_db (sys_gw s')) n = Some rm)"
proof -
  let ?g = "sys_gw s"
  have ok: "rooms_ok ?g" using assms(1) by (rule reachable_rooms_ok)
  then have ids: "ids_agree active_room (gw_rooms ?g) (gw_db ?g)" and rows: "router_rows (gw_router ?g) (gw_db ?g)"
    by (simp_all add: rooms_ok_def)
  have store: "map_option room_ID (active_room (gw_db ?g) n) = Some (rs_GetRoomID n (gw_rooms ?g))"
    if "n |\<in>| fmdom (rs_rooms (gw_rooms ?g))" for n
    using that ids by (auto simp: fmlookup_dom_iff ids_agree_def rs_GetRoomID_def)
  have router: "map_option room_ID (active_room (gw_db ?g) n) = Some (room_ID (Room e)) \<and> Name (Room e) = n"
    if "fmlookup (rt_rooms (gw_router ?g)) n = Some e" for n e
    using rows that by (simp add: router_rows_def)
  have ids_rt: "map_option room_ID (active_room (gw_db ?g) n) = Some (rt_GetRoomID n (gw_router ?g))"
    if "n |\<in>| fmdom (rt_rooms (gw_router ?g))" for n
    using that router by (auto simp: fmlookup_dom_iff rt_GetRoomID_def)
  have "set (rt_ListRooms ord (gw_router ?g)) = fset (fmdom (rt_rooms (gw_router ?g)))" if "iteration_order ord" for ord
  proof -
    have "Name (Room (the (fmlookup (rt_rooms (gw_router ?g)) k))) = k" if "k |\<in>| fmdom (rt_rooms (gw_router ?g))" for k
      using that router by (auto simp: fmlookup_dom_iff)
    with that show ?thesis by (force simp: rt_ListRooms_def iteration_order_set)
  qed
  with store ids_rt run_rooms [OF assms(2) ok] show ?thesis by (simp add: rows_stay_def)
qed

lemma run_enters:
  assumes "no_rooms g" and "g' = remote_JoinRoom run_env 1 defaultRoom ''alice'' g"
  shows "defaultRoom |\<in>| fmdom (rs_rooms (gw_rooms g'))"
    and "defaultRoom |\<in>| fmdom (rt_rooms (gw_router (local_JoinRoom run_env 2 defaultRoom ''alice'' 7 g')))"
  using assms
  by (simp_all add: no_rooms_def remote_JoinRoom_def local_JoinRoom_def rpc_def run_env_def grpc_JoinRoom_def
      rs_JoinRoom_def rt_JoinRoom_def NewRoomStore_def NewInMemoryMessageRouter_def find_or_create_room_def
      pg_room_repo_def RoomRepo_FindByRoomName_def RoomRepo_Create_def query_row_def exec_sql_Runs NewRoom_def
      newRoomEntry_def NewRoomSession_def Let_def)

theorem room_ids_consistent_witness:
  "\<exists>s i. sys_reachable (legal_env Some run_sign run_parse) s \<and>
     rs_GetRoomID defaultRoom (gw_rooms (sys_gw s)) = i \<and> rt_GetRoomID defaultRoom (gw_router (sys_gw s)) = i \<and>
     map_option room_ID (active_room (gw_db (sys_gw s)) defaultRoom) = Some i"
proof -
  let ?L = "legal_env Some run_sign run_parse"
  obtain s where s: "sys_reachable ?L s" "sess s 7 = Authenticated ''alice'' ''u1''" "\<not> crashed s" "no_rooms (sys_gw s)"
    using run_reaches_alice by blast
  let ?s1 = "goto 7 (presence_add 7 ''alice'' ''u1'' (sys_gw s)) s"
  have r1: "sys_reachable ?L ?s1" by (rule sys_reachable.step [OF s(1)]) (rule sys_step.present [OF s(3,2)])
  have s1: "sess ?s1 7 = Present ''alice'' ''u1''" "\<not> crashed ?s1" "no_rooms (sys_gw ?s1)"
    using s(3,4) by (simp_all add: goto_def presence_add_def no_rooms_def)
  let ?g1 = "remote_JoinRoom run_env 1 defaultRoom ''alice'' (sys_gw ?s1)"
  let ?g2 = "local_JoinRoom run_env 2 defaultRoom ''alice'' 7 ?g1"
  obtain r where enter: "runCommandLoop_enter run_env 7 ''alice'' ''u1'' (sys_gw ?s1) = Inr r"
    and r: "gw_rooms (snd r) = gw_rooms ?g2" "gw_router (snd r) = gw_router ?g2"
    by (simp add: runCommandLoop_enter_def Let_def remote_GetRoomID_def rpc_def grpc_GetRoomID_def run_env_def)
  let ?s2 = "goto 7 r ?s1"
  have r2: "sys_reachable ?L ?s2"
    by (rule sys_reachable.step [OF r1]) (rule sys_step.enter [where L = ?L and E = run_env, OF s1(2,1) run_env_legal enter])
  have dom: "defaultRoom |\<in>| fmdom (rs_rooms (gw_rooms (sys_gw ?s2)))" "defaultRoom |\<in>| fmdom (rt_rooms (gw_router (sys_gw ?s2)))"
    using run_enters [OF s1(3) refl] r by (simp_all add: goto_def local_JoinRoom_def split: prod.splits)
  note ids = room_ids_consistent [OF r2 rtranclp.rtrancl_refl]
  from ids [THEN conjunct1, rule_format, OF dom(1)] ids [THEN conjunct2, THEN conjunct1, rule_format, OF dom(2)] r2
  show ?thesis by (intro exI [of _ ?s2] exI [of _ "rs_GetRoomID defaultRoom (gw_rooms (sys_gw ?s2))"]) simp
qed

end
