(* ===== verification/SecondSession.thy ===== *)
theory SecondSession
  imports System
begin

text \<open>
  Two sessions of one account. The gateway looks for the name in its presence store when it answers
  \<open>/login\<close> and adds it later, so two logins can pass the check; the stores of rooms and presence are keyed
  by the name alone. What happens to the second session when the first one ends.
\<close>

section \<open>Lemmas\<close>

lemma reachable_live: "sys_reachable (legal_env uuid sign parse) s \<Longrightarrow> live (sys_gw s) (sess s)"
  by (induction rule: sys_reachable.induct) (auto intro: live_init live_step)

lemma broadcast_misses:
  assumes "iteration_order ord" and "\<And>u. (u, d) \<notin> router_conns rt"
  shows "snd (rt_BroadcastRoom ord r msg rt net) d = net d"
proof (cases "fmlookup (rt_rooms rt) r")
  case (Some e)
  then have none: "{u. fmlookup (Members e) u = Some d} = {}" using assms(2) by (auto simp: router_conns_def)
  show ?thesis unfolding rt_BroadcastRoom_net(2) [OF assms(1) Some] none by simp
qed (simp add: rt_BroadcastRoom_def)

section \<open>A run with two logins\<close>

definition ready :: "nat \<Rightarrow> system \<Rightarrow> bool" where
  "ready n s \<longleftrightarrow> \<not> crashed s \<and> gw_db (sys_gw s) = alice_db \<and> secret (gw_auth (sys_gw s)) = ''key'' \<and>
     gw_presence (sys_gw s) = NewInMemoryPresenceStore \<and> fcard (fmdom (reg_conns (gw_registry (sys_gw s)))) \<le> n"

text \<open>One auth step of the run on a frame that has arrived.\<close>

lemma run_auth:
  assumes "sys_reachable L s" and "L run_env" and "\<not> crashed s" and "in_auth (sess s c)"
    and "runAuthLoop_step run_env c (sess s c) (sys_gw s) = (pc, g)"
  shows "sys_reachable L (goto c (pc, g) s)"
  using sys_reachable.step [OF assms(1) sys_step.auth [where L = L and E = run_env, OF assms(3,4,2)]] assms(5) by simp

lemma run_second_login:
  assumes "sys_reachable L s" and "L run_env" and "ready n s" and "n < 100" and "sess s c = Absent"
  shows "\<exists>s'. sys_reachable L s' \<and> ready (Suc n) s' \<and> sess s' = (sess s)(c := Authenticated ''alice'' ''u1'')"
proof -
  let ?net = "\<lambda>_ :: conn. \<lparr>inb = encode ''/login'' @ encode ''alice'' @ encode ''pw'', rerr = EOF, outb = [], wcap = None\<rparr>"
  let ?s0 = "s\<lparr>sys_gw := (sys_gw s)\<lparr>gw_net := ?net\<rparr>\<rparr>"
  have r0: "sys_reachable L ?s0" by (rule sys_reachable.step [OF assms(1) sys_step.network])
  have fits: "fits ''/login''" "fits ''alice''" "fits ''pw''" by (simp_all add: fits_def)
  note rd = assms(3) [unfolded ready_def]
  have new: "\<not> 100 \<le> fcard (fmdom (reg_conns (gw_registry (sys_gw s))))" using rd assms(4) by linarith
  define g1 where "g1 = snd (accept_conn c (sys_gw ?s0))"
  have a1: "accept_conn c (sys_gw ?s0) = (AuthMenu, g1)" and inb1: "inb (gw_net g1 c) = encode ''/login'' @ encode ''alice'' @ encode ''pw''"
    and f1: "secret (gw_auth g1) = ''key''" "gw_db g1 = alice_db" "gw_presence g1 = NewInMemoryPresenceStore"
      "fcard (fmdom (reg_conns (gw_registry g1))) \<le> Suc n"
    using new rd by (auto simp: g1_def accept_conn_def Registry_Add_def fcard_finsert_if)
  let ?s1 = "goto c (AuthMenu, g1) ?s0"
  have r1: "sys_reachable L ?s1"
    unfolding a1 [symmetric] using rd assms(5)
    by (intro sys_reachable.step [OF r0] sys_step.accept) simp_all
  obtain g1' where v1: "recv c g1 = (Inr ''/login'', g1')" "same_but_net g1 g1'" "inb (gw_net g1' c) = encode ''alice'' @ encode ''pw''"
    using recv_encode [OF inb1 fits(1)] by blast
  have trim: "TrimSpace ''/login'' = ''/login''" by (rule TrimSpace_word) (simp add: is_word_def printable_def)
  obtain g2 where st2: "runAuthLoop_step run_env c AuthMenu g1 = (LoginName, g2)" and inb2: "inb (gw_net g2 c) = encode ''alice'' @ encode ''pw''"
    and f2: "secret (gw_auth g2) = ''key''" "gw_db g2 = alice_db" "gw_presence g2 = NewInMemoryPresenceStore" "gw_registry g2 = gw_registry g1"
    using v1 f1 trim by (auto simp: runAuthLoop_step_def auth_menu_def same_but_net_def)
  let ?s2 = "goto c (LoginName, g2) ?s1"
  have r2: "sys_reachable L ?s2"
    by (rule run_auth [OF r1 assms(2)]) (use st2 rd in \<open>simp_all add: goto_def\<close>)
  obtain g2' where v2: "recv c g2 = (Inr ''alice'', g2')" "same_but_net g2 g2'" "inb (gw_net g2' c) = encode ''pw'' @ []"
    using recv_encode [OF inb2 fits(2)] by auto
  obtain g3 where st3: "runAuthLoop_step run_env c LoginName g2 = (LoginPassword ''alice'', g3)" and inb3: "inb (gw_net g3 c) = encode ''pw'' @ []"
    and f3: "secret (gw_auth g3) = ''key''" "gw_db g3 = alice_db" "gw_presence g3 = NewInMemoryPresenceStore" "gw_registry g3 = gw_registry g1"
    using v2 f2 by (auto simp: runAuthLoop_step_def same_but_net_def)
  let ?s3 = "goto c (LoginPassword ''alice'', g3) ?s2"
  have r3: "sys_reachable L ?s3"
    by (rule run_auth [OF r2 assms(2)]) (use st3 rd in \<open>simp_all add: goto_def\<close>)
  obtain g3' where v3: "recv c g3 = (Inr ''pw'', g3')" "same_but_net g3 g3'"
    using recv_encode [OF inb3 fits(3)] by blast
  have g3': "secret (gw_auth g3') = ''key''" "gw_db g3' = alice_db" "gw_presence g3' = NewInMemoryPresenceStore" "gw_registry g3' = gw_registry g1"
    using same_but_net_fields [OF v3(2)] f3 by simp_all
  obtain as' where login: "grpc_Login authService (pg_user_repo Some id Runs, witness_env) ''alice'' ''pw'' (gw_auth g3', alice_db) =
    (Inr \<lparr>resp_Username = ''alice'', resp_UserId = ''u1'', resp_Token = ''h.c.s''\<rparr>, as', alice_db)" "secret as' = ''key''"
    using run_login [OF g3'(1)] by blast
  have free: "ps_List ord NewInMemoryPresenceStore = ord {||}" for ord
    by (simp add: ps_List_def NewInMemoryPresenceStore_def)
  obtain g4 where st4: "runAuthLoop_step run_env c (LoginPassword ''alice'') g3 = (Authenticated ''alice'' ''u1'', g4)"
    and f4: "secret (gw_auth g4) = ''key''" "gw_db g4 = alice_db" "gw_presence g4 = NewInMemoryPresenceStore" "gw_registry g4 = gw_registry g1"
    using v3 g3' login by (auto simp: runAuthLoop_step_def auth_login_def auth_rpc_def callWithRetry_def
        retry_from.simps rpc_def run_env_def free)
  let ?s4 = "goto c (Authenticated ''alice'' ''u1'', g4) ?s3"
  have "sys_reachable L ?s4"
    by (rule run_auth [OF r3 assms(2)]) (use st4 rd in \<open>simp_all add: goto_def\<close>)
  moreover have "ready (Suc n) ?s4" using f1(4) f4 rd by (simp add: ready_def goto_def)
  moreover have "sess ?s4 = (sess s)(c := Authenticated ''alice'' ''u1'')" by (simp add: goto_def fun_eq_iff)
  ultimately show ?thesis by blast
qed

lemma run_present_enter:
  assumes "sys_reachable L s" and "L run_env" and "\<not> crashed s" and "sess s c = Authenticated u i"
  shows "\<exists>s'. sys_reachable L s' \<and> \<not> crashed s' \<and> sess s' = (sess s)(c := InRoom u i defaultRoom)"
proof -
  let ?s1 = "goto c (presence_add c u i (sys_gw s)) s"
  have r1: "sys_reachable L ?s1" by (rule sys_reachable.step [OF assms(1)]) (rule sys_step.present [OF assms(3,4)])
  have s1: "sess ?s1 c = Present u i" "\<not> crashed ?s1" using assms(3) by (simp_all add: goto_def presence_add_def)
  obtain g where g: "runCommandLoop_enter run_env c u i (sys_gw ?s1) = Inr (InRoom u i defaultRoom, g)"
    by (auto simp: runCommandLoop_enter_def Let_def remote_GetRoomID_def rpc_def run_env_def grpc_GetRoomID_def)
  let ?s2 = "goto c (InRoom u i defaultRoom, g) ?s1"
  have "sys_reachable L ?s2"
    by (rule sys_reachable.step [OF r1]) (rule sys_step.enter [where L = L and E = run_env, OF s1(2,1) assms(2) g])
  moreover have "sess ?s2 = (sess s)(c := InRoom u i defaultRoom)" "\<not> crashed ?s2"
    using assms(3) by (auto simp: goto_def fun_eq_iff)
  ultimately show ?thesis by blast
qed

section \<open>Properties\<close>

text \<open>
  C25. When one of two sessions of an account ends, the other goes on but is cut off: it is still in the
  command loop, while its user is a member of no room of the gateway's router and no broadcast to any
  room reaches its connection, nor does a direct message to the user.
\<close>

theorem second_session_cut_off:
  assumes "sys_reachable (legal_env uuid sign parse) s" and "legal_env uuid sign parse E"
    and "sess s c = InRoom u i rn" and "sess s d = InRoom u j rn'" and "c \<noteq> d"
    and "runCommandLoop_step E c u i rn (sys_gw s) = Inr (Closed, g)"
  shows "sess (goto c (Closed, g) s) d = InRoom u j rn' \<and>
    (\<forall>ord r. iteration_order ord \<longrightarrow> u \<notin> set (snd (rt_ListRoomMembers ord r (gw_router g)))) \<and>
    (\<forall>ord r msg net. iteration_order ord \<longrightarrow> snd (rt_BroadcastRoom ord r msg (gw_router g) net) d = net d) \<and>
    (\<forall>dat net. rt_SendTo u dat (gw_router g) net = (Some (Err (''user '' @ u @ '' is not online'')), net))"
proof -
  have live: "live (sys_gw s) (sess s)" by (rule reachable_live [OF assms(1)])
  have ord: "iteration_order (e_ord E)" using assms(2) by (simp add: legal_env_def)
  obtain g1 where g1: "same_but_net (sys_gw s) g1" "g = close_conn E c (Some u) g1"
    using assms(6) by (cases rule: own_command) auto
  have rt: "gw_router g = rt_Disconnect (e_ord E) u (gw_router (sys_gw s))"
    using g1 same_but_net_fields(5) [OF g1(1)] by (simp add: close_conn_def Let_def)
  have conns: "router_conns (gw_router g) \<subseteq> {p \<in> router_conns (gw_router (sys_gw s)). fst p \<noteq> u}"
    unfolding rt by (rule router_conns_disconnect [OF ord])
  have cut: "(v, d) \<notin> router_conns (gw_router g)" for v
    using liveD(4) [OF live, of v d] assms(4) conns by auto
  have "fmlookup (Members e) u = None" if "fmlookup (rt_rooms (gw_router g)) r = Some e" for r e
    using that unfolding rt rt_disconnect_lookup [OF ord] by (auto split: option.splits if_splits)
  then have "u \<notin> set (snd (rt_ListRoomMembers od r (gw_router g)))" if "iteration_order od" for od r
    using that by (auto simp: rt_ListRoomMembers_def iteration_order_set fmlookup_dom_iff split: option.splits)
  moreover have "rt_SendTo u dat (gw_router g) net = (Some (Err (''user '' @ u @ '' is not online'')), net)" for dat net
    by (simp add: rt rt_SendTo_def rt_Disconnect_def)
  ultimately show ?thesis using assms(4,5) broadcast_misses [OF _ cut] by (simp add: goto_def)
qed

theorem second_session_cut_off_witness:
  "\<exists>s g. sys_reachable (legal_env Some run_sign run_parse) s \<and> sess s 7 = InRoom ''alice'' ''u1'' defaultRoom \<and>
     sess s 8 = InRoom ''alice'' ''u1'' defaultRoom \<and>
     runCommandLoop_step run_env 7 ''alice'' ''u1'' defaultRoom (sys_gw s) = Inr (Closed, g) \<and>
     (\<forall>dat net. rt_SendTo ''alice'' dat (gw_router g) net = (Some (Err ''user alice is not online''), net))"
proof -
  let ?L = "legal_env Some run_sign run_parse"
  let ?net = "\<lambda>_ :: conn. \<lparr>inb = [], rerr = EOF, outb = [], wcap = None\<rparr>"
  have r0: "sys_reachable ?L (sys_init ''key'' alice_db ?net)" by (rule sys_reachable.start [OF alice_db_inv])
  have "ready 0 (sys_init ''key'' alice_db ?net)" "sess (sys_init ''key'' alice_db ?net) 7 = Absent"
    by (simp_all add: ready_def sys_init_def start_gateway_def NewConnRegistry_def NewAuthService_def fcard.rep_eq)
  from run_second_login [OF r0 run_env_legal this(1) _ this(2)] obtain s1 where s1: "sys_reachable ?L s1" "ready 1 s1"
    "sess s1 = (sess (sys_init ''key'' alice_db ?net))(7 := Authenticated ''alice'' ''u1'')" by auto
  have "sess s1 8 = Absent" using s1(3) by (simp add: sys_init_def)
  from run_second_login [OF s1(1) run_env_legal s1(2) _ this] obtain s2 where s2: "sys_reachable ?L s2" "\<not> crashed s2"
    "sess s2 = (sess s1)(8 := Authenticated ''alice'' ''u1'')" by (auto simp: ready_def)
  have "sess s2 7 = Authenticated ''alice'' ''u1''" using s1(3) s2(3) by simp
  from run_present_enter [OF s2(1) run_env_legal s2(2) this] obtain s3 where s3: "sys_reachable ?L s3" "\<not> crashed s3"
    "sess s3 = (sess s2)(7 := InRoom ''alice'' ''u1'' defaultRoom)" by blast
  have "sess s3 8 = Authenticated ''alice'' ''u1''" using s2(3) s3(3) by simp
  from run_present_enter [OF s3(1) run_env_legal s3(2) this] obtain s4 where s4: "sys_reachable ?L s4"
    "sess s4 = (sess s3)(8 := InRoom ''alice'' ''u1'' defaultRoom)" by blast
  let ?s = "s4\<lparr>sys_gw := (sys_gw s4)\<lparr>gw_net := ?net\<rparr>\<rparr>"
  have r: "sys_reachable ?L ?s" by (rule sys_reachable.step [OF s4(1) sys_step.network])
  have in_room: "sess ?s 7 = InRoom ''alice'' ''u1'' defaultRoom" "sess ?s 8 = InRoom ''alice'' ''u1'' defaultRoom"
    using s3(3) s4(2) by simp_all
  obtain g where g: "runCommandLoop_step run_env 7 ''alice'' ''u1'' defaultRoom (sys_gw ?s) = Inr (Closed, g)"
    by (simp add: runCommandLoop_step_def recv_def ReadMessage_def ReadFull_def Let_def)
  have "(7 :: conn) \<noteq> 8" by simp
  from second_session_cut_off [OF r run_env_legal in_room this g] r in_room g show ?thesis by auto
qed

end
