(* ===== verification/Client.thy ===== *)
theory Client
  imports Protocol GoStd
begin

text \<open>
  cmd/client/main.go: the terminal client. Its state is its connection, the channel on which the
  scanner goroutine hands over the lines of the terminal, and what it printed. A receive from a closed
  channel yields the empty string; a receive that nobody will ever serve blocks, and so does a read from
  or a write to a server that keeps the connection open and does nothing, as the client sets no
  deadlines. \<open>os.Exit\<close> is an outcome. \<open>uni\<close> is Unicode's lower-casing of text that is not ASCII.
\<close>

section \<open>The state\<close>

record Credentials =
  cred_Username :: string
  cred_RefreshToken :: string

text \<open>
  The lines the user will still enter, and what comes after them: nothing, the end of the terminal,
  which the scanner goroutine answers by closing the channel some time later, or a channel it has closed.
\<close>

datatype input_end = StaysOpen | AtEOF | ChanClosed

record input_chan =
  in_lines :: "string list"
  in_end :: input_end

text \<open>
  \<open>cl_stalls\<close>: past what \<open>cl_conn\<close> says the server still sends and takes, reads and writes do not fail
  but wait for ever.
\<close>

record client =
  cl_conn :: conn_st
  cl_stalls :: bool
  cl_input :: input_chan
  cl_stdout :: "string list"

datatype 'a outcome = Returned 'a | Exited | Blocked

definition show_line :: "string \<Rightarrow> client \<Rightarrow> client" where
  "show_line txt cl = cl\<lparr>cl_stdout := cl_stdout cl @ [txt]\<rparr>"

definition receive :: "input_chan \<Rightarrow> (string \<times> input_chan) option" where
  "receive ch =
     (case in_lines ch of
        l # ls \<Rightarrow> Some (l, ch\<lparr>in_lines := ls\<rparr>)
      | [] \<Rightarrow> if in_end ch = StaysOpen then None else Some ('''', ch\<lparr>in_end := ChanClosed\<rparr>))"

text \<open>A read that fails because the bytes ran out: on a server that stalls it waits for them.\<close>

definition waits_for_more :: "conn_st \<Rightarrow> bool" where
  "waits_for_more st \<longleftrightarrow> length (inb st) < 4 \<or>
     (let len = Uint32 (take 4 (inb st)) in len \<le> maxMessageSize \<and> length (inb st) < 4 + unat len)"

definition read_blocks :: "client \<Rightarrow> bool" where
  "read_blocks cl \<longleftrightarrow> cl_stalls cl \<and> waits_for_more (cl_conn cl)"

section \<open>Draining the input\<close>

text \<open>
  The select takes the receive branch when it is ready: on a closed channel it always is; otherwise
  \<open>ready\<close> says whether by the \<open>i\<close>-th poll the scanner goroutine is there with the next line or, at the end
  of the terminal, has closed the channel. \<open>None\<close>: the loop never returns.
\<close>

partial_function (option) drainInput :: "(nat \<Rightarrow> bool) \<Rightarrow> nat \<Rightarrow> input_chan \<Rightarrow> input_chan option" where
  [code]: "drainInput ready i ch =
     (case in_lines ch of
        l # ls \<Rightarrow> if ready i then drainInput ready (Suc i) (ch\<lparr>in_lines := ls\<rparr>) else Some ch
      | [] \<Rightarrow>
          (case in_end ch of
             StaysOpen \<Rightarrow> Some ch
           | AtEOF \<Rightarrow> if ready i then drainInput ready (Suc i) (ch\<lparr>in_end := ChanClosed\<rparr>) else Some ch
           | ChanClosed \<Rightarrow> drainInput ready (Suc i) ch))"

section \<open>The authentication dialogue\<close>

text \<open>Closes over the loop body of \<open>runAuthHandshake\<close>: what one prompt leads to.\<close>

datatype reaction = Next string client | Finished Credentials client | Quit client | Waits client

definition answer_prompt :: "(string \<Rightarrow> string) \<Rightarrow> string \<Rightarrow> string \<Rightarrow> client \<Rightarrow> reaction" where
  "answer_prompt uni username dat cl =
     (let prompt = ToLower uni dat in
      if Contains prompt ''already logged in''
      then Next username (show_line ''another session is already active for this account'' cl)
      else if Contains prompt ''successful'' then Next username (show_line prompt cl)
      else if HasPrefix prompt ''refresh:''
      then Finished \<lparr>cred_Username = username, cred_RefreshToken = TrimPrefix prompt ''refresh:''\<rparr> cl
      else if \<not> HasSuffix (TrimSpace prompt) '':'' then Next username (show_line prompt cl)
      else
        (let cl = show_line (prompt @ '' '') cl in
         case receive (cl_input cl) of
           None \<Rightarrow> Waits cl
         | Some (input, ch) \<Rightarrow>
             (let cl = cl\<lparr>cl_input := ch\<rparr>;
                  username = (if \<not> Contains prompt ''password'' \<and> Contains prompt ''username'' then input else username)
              in case WriteMessage input (cl_conn cl) of
                   (Some e, st) \<Rightarrow> (if cl_stalls cl then Waits else Quit) (cl\<lparr>cl_conn := st\<rparr>)
                 | (None, st) \<Rightarrow> Next username (cl\<lparr>cl_conn := st\<rparr>))))"

lemma WriteMessage_inb: "WriteMessage d c = (r, c') \<Longrightarrow> inb c' = inb c"
  using WriteMessage_frame [of d c] by simp

lemma answer_prompt_inb:
  "answer_prompt uni u dat cl = Next u' cl' \<Longrightarrow> inb (cl_conn cl') = inb (cl_conn cl)"
  by (auto simp: answer_prompt_def show_line_def Let_def dest!: WriteMessage_inb
      split: if_splits option.splits prod.splits)

function handshake_loop :: "(string \<Rightarrow> string) \<Rightarrow> string \<Rightarrow> client \<Rightarrow> Credentials outcome \<times> client" where
  "handshake_loop uni username cl =
     (case ReadMessage (cl_conn cl) of
        (Inl e, st) \<Rightarrow> (if read_blocks cl then Blocked else Exited, cl\<lparr>cl_conn := st\<rparr>)
      | (Inr f, st) \<Rightarrow>
          (case answer_prompt uni username (frame_Data f) (cl\<lparr>cl_conn := st\<rparr>) of
             Next u cl \<Rightarrow> handshake_loop uni u cl
           | Finished creds cl \<Rightarrow> (Returned creds, cl)
           | Quit cl \<Rightarrow> (Exited, cl)
           | Waits cl \<Rightarrow> (Blocked, cl)))"
  by pat_completeness auto
termination
  by (relation "measure (\<lambda>(uni, u, cl). length (inb (cl_conn cl)))")
    (auto dest!: answer_prompt_inb dest: ReadMessage_shorter [OF sym])

declare handshake_loop.simps [simp del]

definition runAuthHandshake ::
  "(string \<Rightarrow> string) \<Rightarrow> (nat \<Rightarrow> bool) \<Rightarrow> client \<Rightarrow> (Credentials outcome \<times> client) option" where
  "runAuthHandshake uni ready cl =
     (case drainInput ready 0 (cl_input cl) of
        None \<Rightarrow> None
      | Some ch \<Rightarrow> Some (handshake_loop uni '''' (cl\<lparr>cl_input := ch\<rparr>)))"

section \<open>Reconnecting\<close>

text \<open>\<open>runSilentAuth\<close> ignores the errors of its writes; it prints, but never reads the terminal.\<close>

function silent_loop ::
  "(string \<Rightarrow> string) \<Rightarrow> Credentials \<Rightarrow> client \<Rightarrow> (go_error + Credentials) outcome \<times> client" where
  "silent_loop uni creds cl =
     (case ReadMessage (cl_conn cl) of
        (Inl e, st) \<Rightarrow>
          (if read_blocks cl then Blocked else Returned (Inl (Wrap ''connection lost during silent auth'' e)),
           cl\<lparr>cl_conn := st\<rparr>)
      | (Inr f, st) \<Rightarrow>
          (let cl = cl\<lparr>cl_conn := st\<rparr>; prompt = ToLower uni (frame_Data f) in
           if Contains prompt ''successful'' then silent_loop uni creds (show_line prompt cl)
           else if HasPrefix prompt ''refresh:''
           then (Returned (Inr \<lparr>cred_Username = cred_Username creds, cred_RefreshToken = TrimPrefix prompt ''refresh:''\<rparr>), cl)
           else if \<not> HasSuffix (TrimSpace prompt) '':'' then (Returned (Inl (Err prompt)), cl)
           else
             (let reply = (if Contains prompt ''refresh'' then cred_RefreshToken creds else ''/refresh'') in
              case WriteMessage reply (cl_conn cl) of
                (err, st) \<Rightarrow>
                  (if err \<noteq> None \<and> cl_stalls cl then (Blocked, cl\<lparr>cl_conn := st\<rparr>)
                   else silent_loop uni creds (cl\<lparr>cl_conn := st\<rparr>)))))"
  by pat_completeness auto
termination
  by (relation "measure (\<lambda>(uni, creds, cl). length (inb (cl_conn cl)))")
    (auto simp: show_line_def dest!: WriteMessage_inb [OF sym] dest: ReadMessage_shorter [OF sym])

declare silent_loop.simps [simp del]

definition runSilentAuth ::
  "(string \<Rightarrow> string) \<Rightarrow> Credentials \<Rightarrow> client \<Rightarrow> (go_error + Credentials) outcome \<times> client" where
  "runSilentAuth uni creds cl = silent_loop uni creds cl"

text \<open>
  The six attempts of \<open>reconnect\<close>. \<open>dial k\<close> is the outcome of the \<open>k\<close>-th call of \<open>net.Dial\<close>, with
  whether that server stalls; the result lists the sleeps (nanoseconds). A fresh connection after a failed
  silent authentication that cannot be dialed uses up the attempt without a sleep. \<open>None\<close>: draining the
  input never returned.
\<close>

definition maxAttempts :: nat where
  "maxAttempts = 6"

function reconnect_from ::
  "(string \<Rightarrow> string) \<Rightarrow> (nat \<Rightarrow> bool) \<Rightarrow> (nat \<Rightarrow> (conn_st \<times> bool) option) \<Rightarrow> Credentials \<Rightarrow> nat \<Rightarrow> nat \<Rightarrow> int \<Rightarrow> client \<Rightarrow>
   ((go_error + Credentials) outcome \<times> int list \<times> client) option" where
  "reconnect_from uni ready dial creds attempt k delay cl =
     (if attempt \<le> maxAttempts
      then let cl = show_line (''reconnecting... attempts '' @ decimal attempt @ ''/'' @ decimal maxAttempts) cl in
        (case dial k of
           None \<Rightarrow>
             (let delay' = delay * 2;
                  delay' = (if delay' > 30 * 1000000000 then 30 * 1000000000 else delay') in
              map_option (\<lambda>(res, sleeps, cl). (res, delay # sleeps, cl))
                (reconnect_from uni ready dial creds (Suc attempt) (Suc k) delay' cl))
         | Some (st, stalls) \<Rightarrow>
             (case runSilentAuth uni creds (cl\<lparr>cl_conn := st, cl_stalls := stalls\<rparr>) of
                (Returned (Inr newCreds), cl) \<Rightarrow> Some (Returned (Inr newCreds), [], cl)
              | (Returned (Inl err), cl) \<Rightarrow>
                  (let cl = show_line ''session expired. please log in again.'' cl in
                   case dial (Suc k) of
                     None \<Rightarrow> reconnect_from uni ready dial creds (Suc attempt) (Suc (Suc k)) delay cl
                   | Some (st, stalls) \<Rightarrow>
                       (case runAuthHandshake uni ready (cl\<lparr>cl_conn := st, cl_stalls := stalls\<rparr>) of
                          None \<Rightarrow> None
                        | Some (Returned newCreds, cl) \<Rightarrow> Some (Returned (Inr newCreds), [], cl)
                        | Some (Exited, cl) \<Rightarrow> Some (Exited, [], cl)
                        | Some (Blocked, cl) \<Rightarrow> Some (Blocked, [], cl)))
              | (Exited, cl) \<Rightarrow> Some (Exited, [], cl)
              | (Blocked, cl) \<Rightarrow> Some (Blocked, [], cl)))
      else Some (Returned (Inl (Err ''failed to reconnect after max attempts'')), [], cl))"
  by pat_completeness auto
termination
  by (relation "measure (\<lambda>(uni, ready, dial, creds, attempt, k, delay, cl). Suc maxAttempts - attempt)") auto

declare reconnect_from.simps [simp del]

definition reconnect ::
  "(string \<Rightarrow> string) \<Rightarrow> (nat \<Rightarrow> bool) \<Rightarrow> (nat \<Rightarrow> (conn_st \<times> bool) option) \<Rightarrow> Credentials \<Rightarrow> client \<Rightarrow>
   ((go_error + Credentials) outcome \<times> int list \<times> client) option" where
  "reconnect uni ready dial creds cl = reconnect_from uni ready dial creds 1 0 1000000000 cl"

section \<open>The session\<close>

text \<open>The goroutine that prints what the server sends, until a read fails.\<close>

definition runMessageLoop :: "string \<Rightarrow> client \<Rightarrow> client" where
  "runMessageLoop username cl =
     (case recv_all (cl_conn cl) of (fs, e, st) \<Rightarrow>
        cl\<lparr>cl_conn := st,
           cl_stdout := cl_stdout cl @
             map (\<lambda>f. [CHR 0x0D] @ frame_Data f @ [CHR 0x0A] @ username @ '': '') fs @
             [[CHR 0x0A] @ ''you have been disconnected...'']\<rparr>)"

text \<open>That goroutine never ends if the server stalls and the frames it sent end in a read that waits.\<close>

function reader_blocks :: "client \<Rightarrow> bool" where
  "reader_blocks cl =
     (case ReadMessage (cl_conn cl) of
        (Inl e, st) \<Rightarrow> read_blocks cl
      | (Inr f, st) \<Rightarrow> reader_blocks (cl\<lparr>cl_conn := st\<rparr>))"
  by pat_completeness auto
termination
  by (relation "measure (\<lambda>cl. length (inb (cl_conn cl)))") (auto dest: ReadMessage_shorter [OF sym])

declare reader_blocks.simps [simp del]

text \<open>
  The branches that the select of the inner loop takes, one after the other; \<open>done\<close> is never closed while
  the goroutine reads on. A write that blocks leaves the loop running.
\<close>

datatype branch = DoneClosed | FromInput

datatype session_end = Left | Disconnected | Running

fun input_loop :: "string \<Rightarrow> branch list \<Rightarrow> client \<Rightarrow> session_end \<times> client" where
  "input_loop username [] cl = (Running, cl)"
| "input_loop username (DoneClosed # bs) cl = (if reader_blocks cl then Running else Disconnected, cl)"
| "input_loop username (FromInput # bs) cl =
     (case in_lines (cl_input cl) of
        [] \<Rightarrow> (if in_end (cl_input cl) = StaysOpen then Running else Left, cl)
      | line # ls \<Rightarrow>
          (let cl = cl\<lparr>cl_input := (cl_input cl)\<lparr>in_lines := ls\<rparr>\<rparr> in
           if line = ''/quit'' then (Left, cl)
           else case WriteMessage line (cl_conn cl) of
             (Some e, st) \<Rightarrow>
               (if cl_stalls cl then (Running, cl\<lparr>cl_conn := st\<rparr>)
                else (Disconnected, show_line (username @ '': '') (cl\<lparr>cl_conn := st\<rparr>)))
           | (None, st) \<Rightarrow> input_loop username bs (show_line (username @ '': '') (cl\<lparr>cl_conn := st\<rparr>))))"

text \<open>
  One round of \<open>runSession\<close> is a connection from the welcome to its end and the reconnection; the list
  has what the rounds meet. What the goroutine prints is listed after the output of the inner loop.
\<close>

record round =
  rd_branches :: "branch list"
  rd_drain :: "nat \<Rightarrow> bool"
  rd_login_drain :: "nat \<Rightarrow> bool"
  rd_dial :: "nat \<Rightarrow> (conn_st \<times> bool) option"

fun runSession ::
  "(string \<Rightarrow> string) \<Rightarrow> round list \<Rightarrow> Credentials \<Rightarrow> client \<Rightarrow> (session_end outcome \<times> client) option" where
  "runSession uni [] creds cl = Some (Returned Running, cl)"
| "runSession uni (rd # rds) creds cl =
     (case drainInput (rd_drain rd) 0 (cl_input cl) of
        None \<Rightarrow> None
      | Some ch \<Rightarrow>
          (let cl = show_line (cred_Username creds @ '': '')
                 (show_line ([CHR 0x0A] @ ''welcome '' @ cred_Username creds @
                    ''! type '' @ [CHR 0x27] @ ''/help'' @ [CHR 0x27] @ '' for commands, '' @
                    [CHR 0x27] @ ''/quit'' @ [CHR 0x27] @ '' to disconnect'') (cl\<lparr>cl_input := ch\<rparr>))
           in case input_loop (cred_Username creds) (rd_branches rd) cl of
                (Running, cl) \<Rightarrow> Some (Returned Running, cl)
              | (Left, cl) \<Rightarrow> Some (Returned Left, cl)
              | (Disconnected, cl) \<Rightarrow>
                  (case reconnect uni (rd_login_drain rd) (rd_dial rd) creds (runMessageLoop (cred_Username creds) cl) of
                     None \<Rightarrow> None
                   | Some (Returned (Inr newCreds), sleeps, cl) \<Rightarrow> runSession uni rds newCreds cl
                   | Some (Returned (Inl err), sleeps, cl) \<Rightarrow>
                       Some (Returned Left, show_line (error_text err) cl)
                   | Some (Exited, sleeps, cl) \<Rightarrow> Some (Exited, cl)
                   | Some (Blocked, sleeps, cl) \<Rightarrow> Some (Blocked, cl))))"

text \<open>\<open>main\<close>, after the connection is up.\<close>

definition client_main ::
  "(string \<Rightarrow> string) \<Rightarrow> (nat \<Rightarrow> bool) \<Rightarrow> round list \<Rightarrow> client \<Rightarrow> (session_end outcome \<times> client) option" where
  "client_main uni ready rds cl =
     (case runAuthHandshake uni ready cl of
        None \<Rightarrow> None
      | Some (Returned userCreds, cl) \<Rightarrow> runSession uni rds userCreds cl
      | Some (Exited, cl) \<Rightarrow> Some (Exited, cl)
      | Some (Blocked, cl) \<Rightarrow> Some (Blocked, cl))"

section \<open>Lemmas\<close>

lemma waits_for_more_fails: "waits_for_more st \<Longrightarrow> \<exists>e st'. ReadMessage st = (Inl e, st')"
  by (auto simp: waits_for_more_def ReadMessage_def ReadFull_def Let_def not_less not_le word_less_nat_alt word_le_nat_alt
      split: if_splits)

text \<open>Whether the poll that finds no line left returns.\<close>

definition drains :: "(nat \<Rightarrow> bool) \<Rightarrow> nat \<Rightarrow> input_end \<Rightarrow> bool" where
  "drains ready i e \<longleftrightarrow> e = StaysOpen \<or> e = AtEOF \<and> \<not> ready i"

lemma drainInput_SomeD:
  "drainInput ready i ch = Some ch' \<Longrightarrow>
   \<exists>k \<le> length (in_lines ch). (\<forall>j < k. ready (i + j)) \<and> (k < length (in_lines ch) \<longrightarrow> \<not> ready (i + k)) \<and>
     (k = length (in_lines ch) \<longrightarrow> drains ready (i + k) (in_end ch)) \<and> ch' = ch\<lparr>in_lines := drop k (in_lines ch)\<rparr>"
proof (induction ready i ch ch' rule: drainInput.raw_induct [rotated, consumes 1, case_names step])
  case (step rec ready i ch ch')
  show ?case
  proof (cases "in_lines ch")
    case Nil
    then show ?thesis
      using step(2) step(1) [of ready "Suc i" ch ch'] step(1) [of ready "Suc i" "ch\<lparr>in_end := ChanClosed\<rparr>" ch']
      by (cases "in_end ch") (auto simp: drains_def split: if_splits)
  next
    case (Cons l ls)
    show ?thesis
    proof (cases "ready i")
      case True
      then have "rec ready (Suc i) (ch\<lparr>in_lines := ls\<rparr>) = Some ch'" using step(2) Cons by simp
      from step(1) [OF this] obtain k where k: "k \<le> length ls" "\<forall>j < k. ready (Suc i + j)" "k < length ls \<longrightarrow> \<not> ready (Suc i + k)"
        "k = length ls \<longrightarrow> drains ready (Suc i + k) (in_end ch)" "ch' = ch\<lparr>in_lines := drop k ls\<rparr>"
        by auto
      have "\<forall>j < Suc k. ready (i + j)" using k(2) True by (auto simp: less_Suc_eq_0_disj)
      with k Cons show ?thesis by (intro exI [of _ "Suc k"]) auto
    next
      case False
      then show ?thesis using step(2) Cons by (intro exI [of _ 0]) auto
    qed
  qed
qed

lemma drainInput_returns:
  "drains ready (i + length (in_lines ch)) (in_end ch) \<or> (\<exists>j < length (in_lines ch). \<not> ready (i + j)) \<Longrightarrow>
   drainInput ready i ch \<noteq> None"
proof (induction "in_lines ch" arbitrary: ch i)
  case Nil
  then show ?case by (subst drainInput.simps) (auto simp: drains_def split: list.splits input_end.splits)
next
  case (Cons l ls)
  have "drains ready (Suc i + length ls) (in_end ch) \<or> (\<exists>j < length ls. \<not> ready (Suc i + j))" if "ready i"
    using Cons.prems that Cons.hyps(2) [symmetric] by (auto simp: less_Suc_eq_0_disj)
  with Cons.hyps(1) [of "ch\<lparr>in_lines := ls\<rparr>" "Suc i"] Cons.hyps(2) [symmetric]
  show ?case by (subst drainInput.simps) auto
qed

lemma drainInput_idle: "in_lines ch \<noteq> [] \<or> in_end ch \<noteq> ChanClosed \<Longrightarrow> \<not> ready i \<Longrightarrow> drainInput ready i ch = Some ch"
  by (subst drainInput.simps) (auto split: list.splits input_end.splits)

text \<open>One prompt of the server at a time.\<close>

lemma handshake_next:
  assumes "inb (cl_conn cl) = encode d @ rest" and "fits d"
    and "answer_prompt uni u d (cl\<lparr>cl_conn := (cl_conn cl)\<lparr>inb := rest\<rparr>\<rparr>) = Next u' cl'"
  shows "handshake_loop uni u cl = handshake_loop uni u' cl'"
  using assms by (subst handshake_loop.simps) (simp add: ReadMessage_encode)

lemma handshake_finished:
  assumes "inb (cl_conn cl) = encode d @ rest" and "fits d"
    and "answer_prompt uni u d (cl\<lparr>cl_conn := (cl_conn cl)\<lparr>inb := rest\<rparr>\<rparr>) = Finished creds cl'"
  shows "handshake_loop uni u cl = (Returned creds, cl')"
  using assms by (subst handshake_loop.simps) (simp add: ReadMessage_encode)

text \<open>What the prompts of the gateway are to the client.\<close>

lemmas prompt_tests = ToLower_def is_ascii_def lower_byte_def HasPrefix_def HasSuffix_def suffix_def

lemma prompt_ends: "HasSuffix (TrimSpace s) '':''"
  if "printable (hd s)" "s \<noteq> []" "last s = CHR '':''"
proof -
  have "TrimSpace s = s" using that by (intro TrimSpace_ends) (simp_all add: printable_def)
  moreover have "suffix '':'' s" using that(2,3) by (metis append_butlast_last_id suffixI)
  ultimately show ?thesis by (simp add: HasSuffix_def)
qed

text \<open>A prompt for input, all in lower case, is answered with the next line.\<close>

lemma answer_question:
  assumes "ToLower uni d = d" and "\<not> Contains d ''already logged in''" and "\<not> Contains d ''successful''" and "\<not> HasPrefix d ''refresh:''"
    and "HasSuffix (TrimSpace d) '':''" and "in_lines (cl_input cl) = l # ls" and "wcap (cl_conn cl) = None"
  shows "answer_prompt uni u d cl =
    Next (if \<not> Contains d ''password'' \<and> Contains d ''username'' then l else u)
      (cl\<lparr>cl_stdout := cl_stdout cl @ [d @ '' ''], cl_input := (cl_input cl)\<lparr>in_lines := ls\<rparr>,
          cl_conn := (cl_conn cl)\<lparr>outb := outb (cl_conn cl) @ encode l\<rparr>\<rparr>)"
  using assms by (simp add: answer_prompt_def show_line_def receive_def WriteMessage_None Let_def)

definition no_capital :: "char \<Rightarrow> bool" where
  "no_capital c \<longleftrightarrow> (of_char c :: nat) < 65 \<or> 90 < (of_char c :: nat) \<and> (of_char c :: nat) < 128"

lemma lower_question: "list_all no_capital d \<Longrightarrow> ToLower uni d = d"
  by (auto simp: ToLower_def is_ascii_def list_all_iff no_capital_def lower_byte_def intro!: map_idI)

lemma gateway_questions:
  fixes d :: string
  assumes "d \<in> {''welcome to relay-go. /register or /login:'', ''enter your username:'', ''enter your password:'', ''enter your refresh token:''}"
  shows "ToLower uni d = d" and "\<not> Contains d ''already logged in''" and "\<not> Contains d ''successful''" and "\<not> HasPrefix d ''refresh:''"
    and "HasSuffix (TrimSpace d) '':''" and "fits d"
proof -
  have low: "list_all no_capital d" and ends: "printable (hd d)" "d \<noteq> []" "last d = CHR '':''"
    using assms by (auto simp: no_capital_def printable_def)
  show "ToLower uni d = d" using low by (rule lower_question)
  show "HasSuffix (TrimSpace d) '':''" using ends by (rule prompt_ends)
  show "\<not> Contains d ''already logged in''" "\<not> Contains d ''successful''" using assms by auto
  show "\<not> HasPrefix d ''refresh:''" "fits d" using assms by (auto simp: HasPrefix_def fits_def)
qed

text \<open>Updates of the client in one order, so that states reached on different ways look alike.\<close>

lemma client_order:
  "cl\<lparr>cl_stdout := x, cl_conn := y\<rparr> = cl\<lparr>cl_conn := y, cl_stdout := x\<rparr>"
  "cl\<lparr>cl_stdout := x, cl_input := z\<rparr> = cl\<lparr>cl_input := z, cl_stdout := x\<rparr>"
  "cl\<lparr>cl_input := z, cl_conn := y\<rparr> = cl\<lparr>cl_conn := y, cl_input := z\<rparr>"
  "st\<lparr>outb := a, inb := b\<rparr> = st\<lparr>inb := b, outb := a\<rparr>"
  for cl :: client and st :: conn_st
  by (cases cl; simp)+

lemma handshake_question:
  assumes "inb (cl_conn cl) = encode d @ rest" and "in_lines (cl_input cl) = l # ls" and "wcap (cl_conn cl) = None"
    and "d \<in> {''welcome to relay-go. /register or /login:'', ''enter your username:'', ''enter your password:'', ''enter your refresh token:''}"
  shows "\<exists>out. handshake_loop uni v cl = handshake_loop uni (if d = ''enter your username:'' then l else v)
    (cl\<lparr>cl_conn := (cl_conn cl)\<lparr>inb := rest, outb := outb (cl_conn cl) @ encode l\<rparr>,
        cl_input := (cl_input cl)\<lparr>in_lines := ls\<rparr>, cl_stdout := out\<rparr>)"
proof -
  note q = gateway_questions [OF assms(4)]
  let ?cl = "cl\<lparr>cl_conn := (cl_conn cl)\<lparr>inb := rest\<rparr>\<rparr>"
  have name: "(\<not> Contains d ''password'' \<and> Contains d ''username'') = (d = ''enter your username:'')"
    using assms(4) by (elim insertE emptyE) (hypsubst, simp)+
  have "answer_prompt uni v d ?cl = Next (if d = ''enter your username:'' then l else v)
      (?cl\<lparr>cl_stdout := cl_stdout cl @ [d @ '' ''], cl_input := (cl_input cl)\<lparr>in_lines := ls\<rparr>,
           cl_conn := (cl_conn ?cl)\<lparr>outb := outb (cl_conn cl) @ encode l\<rparr>\<rparr>)"
    using answer_question [OF q(1-5), where cl = ?cl and l = l and ls = ls and u = v] assms(2,3) by (simp add: name)
  from handshake_next [OF assms(1) q(6) this] show ?thesis
    by (intro exI [of _ "cl_stdout cl @ [d @ '' '']"]) (simp add: client_order)
qed

text \<open>A whole dialogue: command, user name, password, and the answer of a successful server.\<close>

lemma client_login:
  assumes "inb (cl_conn cl) = encode ''welcome to relay-go. /register or /login:'' @ encode ''enter your username:'' @
      encode ''enter your password:'' @ encode ok @ encode (''refresh:'' @ tok) @ rest"
    and "in_lines (cl_input cl) = cmd # u # p # ls" and "wcap (cl_conn cl) = None"
    and "ok \<in> {''login successful'', ''registration successful''}" and "fits (''refresh:'' @ tok)"
    and "is_ascii tok" and "\<not> Contains (''refresh:'' @ map lower_byte tok) ''successful''"
    and "\<not> Contains (''refresh:'' @ map lower_byte tok) ''already logged in''"
  shows "\<exists>out. handshake_loop uni v cl = (Returned \<lparr>cred_Username = u, cred_RefreshToken = map lower_byte tok\<rparr>,
    cl\<lparr>cl_conn := (cl_conn cl)\<lparr>inb := rest, outb := outb (cl_conn cl) @ encode cmd @ encode u @ encode p\<rparr>,
       cl_input := (cl_input cl)\<lparr>in_lines := ls\<rparr>, cl_stdout := out\<rparr>)"
proof -
  let ?ok = "encode ok @ encode (''refresh:'' @ tok) @ rest"
  let ?cl = "\<lambda>i o' ls out. cl\<lparr>cl_conn := (cl_conn cl)\<lparr>inb := i, outb := outb (cl_conn cl) @ o'\<rparr>,
    cl_input := (cl_input cl)\<lparr>in_lines := ls\<rparr>, cl_stdout := out\<rparr>"
  let ?i1 = "encode ''enter your username:'' @ encode ''enter your password:'' @ ?ok"
  obtain o1 where s1: "handshake_loop uni v cl = handshake_loop uni v (?cl ?i1 (encode cmd) (u # p # ls) o1)"
    using handshake_question [OF assms(1-3), of uni v] by auto
  obtain o2 where s2: "handshake_loop uni v (?cl ?i1 (encode cmd) (u # p # ls) o1) =
      handshake_loop uni u (?cl (encode ''enter your password:'' @ ?ok) (encode cmd @ encode u) (p # ls) o2)"
    using handshake_question [of "?cl ?i1 (encode cmd) (u # p # ls) o1" "''enter your username:''" _ u "p # ls" uni v] assms(3) by auto
  obtain o3 where s3: "handshake_loop uni u (?cl (encode ''enter your password:'' @ ?ok) (encode cmd @ encode u) (p # ls) o2) =
      handshake_loop uni u (?cl ?ok (encode cmd @ encode u @ encode p) ls o3)"
    using handshake_question [of "?cl (encode ''enter your password:'' @ ?ok) (encode cmd @ encode u) (p # ls) o2"
        "''enter your password:''" ?ok p ls uni u] assms(3) by auto
  let ?c4 = "?cl (encode (''refresh:'' @ tok) @ rest) (encode cmd @ encode u @ encode p) ls (o3 @ [ok])"
  have ok: "ToLower uni ok = ok" "Contains ok ''successful''" "\<not> Contains ok ''already logged in''" "fits ok"
    using assms(4) by (auto simp: fits_def no_capital_def intro!: lower_question)
  have s4: "handshake_loop uni u (?cl ?ok (encode cmd @ encode u @ encode p) ls o3) = handshake_loop uni u ?c4"
    by (rule handshake_next [OF _ ok(4)])
      (simp_all add: answer_prompt_def ok show_line_def Let_def client_order)
  have "is_ascii (''refresh:'' @ tok)" using assms(6) by (simp add: is_ascii_def)
  then have low: "ToLower uni (''refresh:'' @ tok) = ''refresh:'' @ map lower_byte tok"
    by (simp add: ToLower_def lower_byte_def)
  have "answer_prompt uni u (''refresh:'' @ tok) (?c4\<lparr>cl_conn := (cl_conn ?c4)\<lparr>inb := rest\<rparr>\<rparr>) =
      Finished \<lparr>cred_Username = u, cred_RefreshToken = map lower_byte tok\<rparr> (?c4\<lparr>cl_conn := (cl_conn ?c4)\<lparr>inb := rest\<rparr>\<rparr>)"
    unfolding answer_prompt_def low Let_def using assms(7,8)
    by (simp only: if_False TrimPrefix_append) (simp add: HasPrefix_def)
  from handshake_finished [OF _ assms(5) this] show ?thesis
    unfolding s1 s2 s3 s4 by (intro exI [of _ "o3 @ [ok]"]) (simp add: client_order)
qed

lemma silent_outcome:
  "silent_loop uni creds cl = (r, cl') \<Longrightarrow>
   cl_input cl' = cl_input cl \<and> r \<noteq> Exited \<and> (r = Blocked \<longrightarrow> cl_stalls cl)"
proof (induction uni creds cl arbitrary: r cl' rule: silent_loop.induct)
  case (1 uni creds cl)
  obtain r0 st where r0: "ReadMessage (cl_conn cl) = (r0, st)" by fastforce
  note step = 1(3) [unfolded silent_loop.simps [of uni creds cl] r0 prod.case Let_def]
  show ?case
  proof (cases r0)
    case (Inl e)
    with step show ?thesis by (auto simp: read_blocks_def split: if_splits)
  next
    case (Inr f)
    note step = step [unfolded Inr sum.case] and next_prompt = 1(1) [OF r0 [symmetric] Inr refl refl]
      and answered = 1(2) [OF r0 [symmetric] Inr refl refl _ _ _ refl]
    let ?p = "ToLower uni (frame_Data f)"
    consider (success) "Contains ?p ''successful''" | (ends) "\<not> Contains ?p ''successful''" "HasPrefix ?p ''refresh:'' \<or> \<not> HasSuffix (TrimSpace ?p) '':''"
      | (asks) "\<not> Contains ?p ''successful''" "\<not> HasPrefix ?p ''refresh:''" "HasSuffix (TrimSpace ?p) '':''" by blast
    then show ?thesis
    proof cases
      case success
      with step next_prompt [OF success, of r cl'] show ?thesis by (simp add: show_line_def)
    next
      case ends
      with step show ?thesis by (auto split: if_splits)
    next
      case asks
      obtain err st1 where w: "WriteMessage (if Contains ?p ''refresh'' then cred_RefreshToken creds else ''/refresh'')
          (cl_conn (cl\<lparr>cl_conn := st\<rparr>)) = (err, st1)" by fastforce
      note step = step [unfolded w prod.case]
      show ?thesis
      proof (cases "err \<noteq> None \<and> cl_stalls cl")
        case True
        with step asks show ?thesis by auto
      next
        case False
        with step asks answered [OF asks(1,2) _ w [symmetric], of r cl'] show ?thesis by (cases err) auto
      qed
    qed
  qed
qed

lemma answer_prompt_waits:
  "answer_prompt uni u d cl = Waits cl' \<Longrightarrow> cl_stalls cl \<or> in_lines (cl_input cl') = []"
  "answer_prompt uni u d cl = Next u' cl' \<Longrightarrow> cl_stalls cl' = cl_stalls cl"
  by (auto simp: answer_prompt_def show_line_def receive_def Let_def split: if_splits option.splits prod.splits list.splits)

lemma handshake_blocked:
  "handshake_loop uni u cl = (Blocked, cl') \<Longrightarrow> cl_stalls cl \<or> in_lines (cl_input cl') = []"
proof (induction uni u cl rule: handshake_loop.induct)
  case (1 uni u cl)
  obtain r st where r: "ReadMessage (cl_conn cl) = (r, st)" by fastforce
  show ?case
  proof (cases r)
    case (Inl e)
    with 1(2) r show ?thesis by (subst (asm) handshake_loop.simps) (auto simp: read_blocks_def split: if_splits)
  next
    case (Inr f)
    note step = 1(2) [unfolded handshake_loop.simps [of uni u cl] r Inr prod.case sum.case]
    show ?thesis
    proof (cases "answer_prompt uni u (frame_Data f) (cl\<lparr>cl_conn := st\<rparr>)")
      case (Next v cl1)
      with 1(1) [OF r [symmetric] Inr Next] step answer_prompt_waits(2) [OF Next] show ?thesis by simp
    next
      case (Waits cl1)
      with step answer_prompt_waits(1) [OF Waits] show ?thesis by simp
    qed (use step in simp_all)
  qed
qed

text \<open>
  What is left of \<open>reconnect_from\<close> from the \<open>k\<close>-th dial, with \<open>m\<close> attempts to go: its result, the number of
  sleeps and the client in the end.
\<close>

definition gave_up :: go_error where
  "gave_up = Err ''failed to reconnect after max attempts''"

definition ends_well ::
  "(nat \<Rightarrow> (conn_st \<times> bool) option) \<Rightarrow> nat \<Rightarrow> nat \<Rightarrow> (go_error + Credentials) outcome \<Rightarrow> nat \<Rightarrow> client \<Rightarrow> bool" where
  "ends_well dial k m res n cl \<longleftrightarrow> n \<le> m \<and> (\<forall>e. res = Returned (Inl e) \<longrightarrow> e = gave_up) \<and>
     (res = Blocked \<longrightarrow> in_lines (cl_input cl) = [] \<or> (\<exists>j st. dial (k + j) = Some (st, True))) \<and>
     ((\<forall>j. dial (k + j) = None) \<longrightarrow> res = Returned (Inl gave_up) \<and> n = m)"

lemma later_dial:
  "\<exists>j st. dial (Suc k + j) = Some (st, True) \<Longrightarrow> \<exists>j st. dial (k + j) = Some (st, True)"
  "\<forall>j. dial (k + j) = None \<Longrightarrow> \<forall>j. dial (Suc k + j) = None"
  by (metis add_Suc_shift)+

lemma ends_well_slept: "ends_well dial (Suc k) m res n cl \<Longrightarrow> ends_well dial k (Suc m) res (Suc n) cl"
  unfolding ends_well_def using later_dial [of dial k] by auto

lemma ends_well_redialed:
  "dial k \<noteq> None \<Longrightarrow> ends_well dial (Suc (Suc k)) m res n cl \<Longrightarrow> ends_well dial k (Suc m) res n cl"
  unfolding ends_well_def using later_dial [of dial k] later_dial [of dial "Suc k"]
  by (metis add.right_neutral le_SucI)

lemma ends_well_now:
  assumes "dial k \<noteq> None" and "\<And>e. res \<noteq> Returned (Inl e)"
    and "res = Blocked \<Longrightarrow> in_lines (cl_input cl) = [] \<or> (\<exists>j st. dial (k + j) = Some (st, True))"
  shows "ends_well dial k m res 0 cl"
  unfolding ends_well_def using assms by (metis add.right_neutral zero_le)

text \<open>The attempts left and the doubled delays bound what \<open>reconnect_from\<close> does.\<close>

lemma reconnect_from_bounded:
  assumes "0 \<le> d" and "d \<le> 30 * 1000000000" and "in_end (cl_input cl) = StaysOpen"
  shows "\<exists>res n cl'. reconnect_from uni ready dial creds i k d cl = Some (res, map (backoff d) [0..<n], cl') \<and>
    ends_well dial k (Suc maxAttempts - i) res n cl'"
  using assms
proof (induction uni ready dial creds i k d cl rule: reconnect_from.induct)
  case (1 uni ready dial creds i k d cl)
  let ?cl = "show_line (''reconnecting... attempts '' @ decimal i @ ''/'' @ decimal maxAttempts) cl"
  have open_in: "in_end (cl_input ?cl) = StaysOpen" using 1(5) by (simp add: show_line_def)
  show ?case
  proof (cases "i \<le> maxAttempts")
    case False
    then show ?thesis by (subst reconnect_from.simps) (simp add: ends_well_def gave_up_def)
  next
    case True
    then have left: "Suc maxAttempts - i = Suc (Suc maxAttempts - Suc i)" by simp
    show ?thesis
    proof (cases "dial k")
      case None
      let ?d = "if 30 * 1000000000 < d * 2 then 30 * 1000000000 else d * 2"
      have d: "0 \<le> ?d" "?d \<le> 30 * 1000000000" using 1(3) by auto
      have next_delay: "backoff ?d = (\<lambda>n. backoff d (Suc n))" by (rule ext) (rule backoff_next [OF 1(3)])
      from 1(1) [OF True refl None refl refl d open_in] obtain res n cl'
        where r: "reconnect_from uni ready dial creds (Suc i) (Suc k) ?d ?cl = Some (res, map (backoff ?d) [0..<n], cl')"
          "ends_well dial (Suc k) (Suc maxAttempts - Suc i) res n cl'" by blast
      have "d # map (backoff ?d) [0..<n] = map (backoff d) [0..<Suc n]"
        unfolding next_delay using 1(4) by (simp add: backoff_def upt_conv_Cons map_Suc_upt [symmetric] del: upt_Suc)
      then have "reconnect_from uni ready dial creds i k d cl = Some (res, map (backoff d) [0..<Suc n], cl')"
        using True None r(1) by (subst reconnect_from.simps) (simp add: Let_def)
      with ends_well_slept [OF r(2)] show ?thesis unfolding left by blast
    next
      case (Some p)
      obtain st b where p: "p = (st, b)" by fastforce
      obtain res1 cl1 where sa: "runSilentAuth uni creds (?cl\<lparr>cl_conn := st, cl_stalls := b\<rparr>) = (res1, cl1)" by fastforce
      note out = silent_outcome [OF sa [unfolded runSilentAuth_def]]
      have now: "?thesis" if "reconnect_from uni ready dial creds i k d cl = Some (res, [], cl')" "\<And>e. res \<noteq> Returned (Inl e)"
        "res = Blocked \<Longrightarrow> in_lines (cl_input cl') = [] \<or> (\<exists>j st. dial (k + j) = Some (st, True))" for res cl'
        using that(1) ends_well_now [where dial = dial and k = k and m = "Suc maxAttempts - i", OF _ that(2,3)] Some
        by (intro exI [of _ res] exI [of _ 0] exI [of _ cl']) simp
      show ?thesis
      proof (cases res1)
        case (Returned r1)
        show ?thesis
        proof (cases r1)
          case (Inr c)
          then show ?thesis using True Some p sa Returned by (intro now [of "Returned (Inr c)" cl1], subst reconnect_from.simps) (simp_all add: Let_def)
        next
          case (Inl e)
          let ?cl1 = "show_line ''session expired. please log in again.'' cl1"
          have in1: "in_end (cl_input ?cl1) = StaysOpen" using out open_in by (simp add: show_line_def)
          show ?thesis
          proof (cases "dial (Suc k)")
            case None
            from 1(2) [OF True refl Some p [symmetric] sa [symmetric] Returned Inl refl None 1(3,4) in1] obtain res n cl'
              where r: "reconnect_from uni ready dial creds (Suc i) (Suc (Suc k)) d ?cl1 = Some (res, map (backoff d) [0..<n], cl')"
                "ends_well dial (Suc (Suc k)) (Suc maxAttempts - Suc i) res n cl'" by blast
            have "reconnect_from uni ready dial creds i k d cl = Some (res, map (backoff d) [0..<n], cl')"
              using True Some p sa Returned Inl None r(1) by (subst reconnect_from.simps) (simp add: Let_def)
            with ends_well_redialed [OF _ r(2)] Some show ?thesis unfolding left by blast
          next
            case (Some p')
            obtain st' b' where p': "p' = (st', b')" by fastforce
            have "runAuthHandshake uni ready (?cl1\<lparr>cl_conn := st', cl_stalls := b'\<rparr>) \<noteq> None"
              using drainInput_returns [of ready 0 "cl_input ?cl1"] in1
              by (auto simp: runAuthHandshake_def drains_def)
            then obtain o1 cl2 where r: "runAuthHandshake uni ready (?cl1\<lparr>cl_conn := st', cl_stalls := b'\<rparr>) = Some (o1, cl2)" by auto
            have "b' \<or> in_lines (cl_input cl2) = []" if "o1 = Blocked"
              using r that handshake_blocked by (fastforce simp: runAuthHandshake_def split: option.splits)
            moreover have "dial (k + 1) = Some (st', b')" using Some p' by simp
            ultimately have blocked: "in_lines (cl_input cl2) = [] \<or> (\<exists>j st. dial (k + j) = Some (st, True))" if "o1 = Blocked"
              using that by (cases b') (metis, simp)
            note unfold = reconnect_from.simps [of uni ready dial creds i k d cl]
            show ?thesis
              using True \<open>dial k = Some p\<close> p p' sa Returned Inl Some r blocked
              by (cases o1; intro now [of "case o1 of Returned c \<Rightarrow> Returned (Inr c) | Exited \<Rightarrow> Exited | Blocked \<Rightarrow> Blocked" cl2])
                (simp_all add: unfold Let_def)
          qed
        qed
      next
        case Exited
        with out show ?thesis by simp
      next
        case Blocked
        with out have "dial (k + 0) = Some (st, True)" using Some p by simp
        then have "\<exists>j st. dial (k + j) = Some (st, True)" by blast
        then show ?thesis using True Some p sa Blocked by (intro now [of Blocked cl1], subst reconnect_from.simps) (simp_all add: Let_def)
      qed
    qed
  qed
qed

text \<open>A server that takes the connection and says nothing.\<close>

lemma reconnect_silent_server:
  assumes "dial 0 = Some (st, True)" and "waits_for_more st"
  shows "\<exists>cl'. reconnect uni ready dial creds cl = Some (Blocked, [], cl')"
proof -
  obtain e st' where "ReadMessage st = (Inl e, st')"
    using waits_for_more_fails [OF assms(2)] by blast
  then show ?thesis
    using assms by (simp add: reconnect_def reconnect_from.simps maxAttempts_def runSilentAuth_def silent_loop.simps
        read_blocks_def Let_def)
qed

text \<open>A server that refuses the refresh token, as silent re-authentication sees it.\<close>

lemma silent_next:
  assumes "inb (cl_conn cl) = encode d @ rest" and "wcap (cl_conn cl) = None"
    and "d \<in> {''welcome to relay-go. /register or /login:'', ''enter your refresh token:''}"
  shows "silent_loop uni creds cl = silent_loop uni creds
    (cl\<lparr>cl_conn := (cl_conn cl)\<lparr>inb := rest, outb := outb (cl_conn cl) @
       encode (if d = ''enter your refresh token:'' then cred_RefreshToken creds else ''/refresh'')\<rparr>\<rparr>)"
proof -
  have d: "d \<in> {''welcome to relay-go. /register or /login:'', ''enter your username:'', ''enter your password:'', ''enter your refresh token:''}"
    using assms(3) by (elim insertE emptyE) simp_all
  note q = gateway_questions [OF d]
  have word: "Contains d ''refresh'' = (d = ''enter your refresh token:'')"
    using assms(3) by (elim insertE emptyE) (hypsubst, simp)+
  show ?thesis
    by (subst silent_loop.simps)
      (simp only: ReadMessage_encode [OF assms(1) q(6)] prod.case sum.case Let_def frame.simps q(1,3,4,5) word if_False,
       simp add: WriteMessage_None assms(2))
qed

lemma silent_refused:
  assumes "inb (cl_conn cl) = encode ''welcome to relay-go. /register or /login:'' @ encode ''enter your refresh token:'' @
      encode ''auth service unavailable, please try again later'' @ rest" and "wcap (cl_conn cl) = None"
  shows "\<exists>cl'. runSilentAuth uni creds cl = (Returned (Inl (Err ''auth service unavailable, please try again later'')), cl') \<and>
    outb (cl_conn cl') = outb (cl_conn cl) @ encode ''/refresh'' @ encode (cred_RefreshToken creds)"
proof -
  let ?e = "''auth service unavailable, please try again later''"
  have e: "ToLower uni ?e = ?e" by (rule lower_question) (simp add: no_capital_def)
  have t: "TrimSpace ?e = ?e" by (rule TrimSpace_ends) (simp_all add: printable_def)
  have f: "fits ?e" by (simp add: fits_def)
  show ?thesis
    unfolding runSilentAuth_def using assms(2)
    by (subst silent_next [OF assms(1)], simp, simp, subst silent_next [where rest = "encode ?e @ rest" and d = "''enter your refresh token:''"])
      (simp_all add: silent_loop.simps [of uni creds] ReadMessage_encode [OF _ f] e t HasPrefix_def HasSuffix_def suffix_def Let_def)
qed

section \<open>Properties\<close>

text \<open>
  C39. Draining the terminal: \<open>drainInput\<close> throws away lines as long as the scanner has one on offer, and
  returns at the first poll that finds none. It never returns exactly when every line before the end of
  the terminal was on offer in time and the channel is closed by the poll after the last one: on the closed
  channel the receive is always ready. While the terminal stays open, or when the scanner goroutine is too
  late with a line or with closing the channel, it returns.
\<close>

theorem drainInput_spec:
  "(drainInput ready 0 ch = None \<longleftrightarrow> (\<forall>j < length (in_lines ch). ready j) \<and>
      (in_end ch = ChanClosed \<or> in_end ch = AtEOF \<and> ready (length (in_lines ch)))) \<and>
   (\<forall>ch'. drainInput ready 0 ch = Some ch' \<longrightarrow>
     (\<exists>k \<le> length (in_lines ch). (\<forall>j < k. ready j) \<and> (k < length (in_lines ch) \<longrightarrow> \<not> ready k) \<and>
        ch' = ch\<lparr>in_lines := drop k (in_lines ch)\<rparr>))"
proof -
  let ?n = "length (in_lines ch)"
  have spec: "\<exists>k \<le> ?n. (\<forall>j < k. ready j) \<and> (k < ?n \<longrightarrow> \<not> ready k) \<and>
     (k = ?n \<longrightarrow> drains ready k (in_end ch)) \<and> ch' = ch\<lparr>in_lines := drop k (in_lines ch)\<rparr>"
    if "drainInput ready 0 ch = Some ch'" for ch'
    using drainInput_SomeD [OF that] by simp
  have ends: "in_end ch = ChanClosed \<or> in_end ch = AtEOF \<and> ready ?n \<longleftrightarrow> \<not> drains ready ?n (in_end ch)"
    by (cases "in_end ch") (simp_all add: drains_def)
  have "drainInput ready 0 ch = None" if "\<forall>j < ?n. ready j" "\<not> drains ready ?n (in_end ch)"
  proof (rule ccontr)
    assume "drainInput ready 0 ch \<noteq> None"
    then obtain ch' where "drainInput ready 0 ch = Some ch'" by auto
    from spec [OF this] that show False by (metis le_neq_implies_less)
  qed
  moreover have "(\<forall>j < ?n. ready j) \<and> \<not> drains ready ?n (in_end ch)" if "drainInput ready 0 ch = None"
    using drainInput_returns [of ready 0 ch] that by auto
  ultimately show ?thesis unfolding ends using spec by blast
qed

theorem drainInput_spec_witness:
  "drainInput (\<lambda>j. True) 0 \<lparr>in_lines = [''/login''], in_end = AtEOF\<rparr> = None \<and>
   drainInput (\<lambda>j. j = 0) 0 \<lparr>in_lines = [''/login''], in_end = AtEOF\<rparr> = Some \<lparr>in_lines = [], in_end = AtEOF\<rparr>"
proof -
  have "drainInput (\<lambda>j. j = 0) 0 \<lparr>in_lines = [''/login''], in_end = AtEOF\<rparr> \<noteq> None"
    using drainInput_spec [of "\<lambda>j. j = 0" "\<lparr>in_lines = [''/login''], in_end = AtEOF\<rparr>"] by simp
  then obtain ch where "drainInput (\<lambda>j. j = 0) 0 \<lparr>in_lines = [''/login''], in_end = AtEOF\<rparr> = Some ch" by auto
  with drainInput_spec [of "\<lambda>j. j = 0" "\<lparr>in_lines = [''/login''], in_end = AtEOF\<rparr>"]
    drainInput_spec [of "\<lambda>j. True" "\<lparr>in_lines = [''/login''], in_end = AtEOF\<rparr>"]
  show ?thesis by (auto simp: le_Suc_eq)
qed

text \<open>
  C40. What becomes of a reconnection while the terminal stays open: \<open>reconnect\<close> makes at most six
  attempts and sleeps for an initial part of the delays 1, 2, 4, 8, 16 and 30 seconds; if no dial succeeds,
  for all six, and then it gives up with its one error. But it need not return: the client sets no
  deadlines, so a server that takes the connection and sends less than a frame blocks the silent
  authentication for ever. It blocks only on such a server, or for want of a line of the terminal.
\<close>

theorem reconnect_outcomes:
  assumes "in_end (cl_input cl) = StaysOpen"
  shows "\<exists>res n cl'. reconnect uni ready dial creds cl =
      Some (res, take n (map ((*) 1000000000) [1, 2, 4, 8, 16, 30]), cl') \<and> n \<le> maxAttempts \<and>
    (\<forall>e. res = Returned (Inl e) \<longrightarrow> e = Err ''failed to reconnect after max attempts'') \<and>
    ((\<forall>k. dial k = None) \<longrightarrow>
       res = Returned (Inl (Err ''failed to reconnect after max attempts'')) \<and> n = maxAttempts) \<and>
    (\<forall>st. dial 0 = Some (st, True) \<and> waits_for_more st \<longrightarrow> res = Blocked) \<and>
    (res = Blocked \<longrightarrow> in_lines (cl_input cl') = [] \<or> (\<exists>k st. dial k = Some (st, True)))"
proof -
  have six: "map (backoff 1000000000) [0..<6] = map ((*) 1000000000) [1, 2, 4, 8, 16, 30]"
    by (simp add: backoff_def upt_rec)
  have d: "(0 :: int) \<le> 1000000000" "(1000000000 :: int) \<le> 30 * 1000000000" by simp_all
  from reconnect_from_bounded [OF d assms, of uni ready dial creds 1 0]
  obtain res n cl' where r: "reconnect uni ready dial creds cl = Some (res, map (backoff 1000000000) [0..<n], cl')"
    "ends_well dial 0 maxAttempts res n cl'" by (auto simp: reconnect_def)
  have "map (backoff 1000000000) [0..<n] = take n (map ((*) 1000000000) [1, 2, 4, 8, 16, 30])"
    unfolding six [symmetric] using r(2) by (simp add: take_map maxAttempts_def ends_well_def)
  moreover have "res = Blocked" if "dial 0 = Some (st, True)" "waits_for_more st" for st
    using reconnect_silent_server [where dial = dial, OF that, of uni ready creds cl] r(1) by auto
  ultimately show ?thesis
    using r unfolding ends_well_def gave_up_def add_0 by (intro exI [of _ res] exI [of _ n] exI [of _ cl'] conjI) (simp, blast+)
qed

theorem reconnect_outcomes_witness:
  "\<exists>cl1 cl2. reconnect (\<lambda>s. s) (\<lambda>j. True) (\<lambda>k. None) \<lparr>cred_Username = ''alice'', cred_RefreshToken = ''t''\<rparr>
       \<lparr>cl_conn = wire [], cl_stalls = False, cl_input = \<lparr>in_lines = [], in_end = StaysOpen\<rparr>, cl_stdout = []\<rparr> =
       Some (Returned (Inl (Err ''failed to reconnect after max attempts'')), map ((*) 1000000000) [1, 2, 4, 8, 16, 30], cl1) \<and>
     (\<exists>sleeps. reconnect (\<lambda>s. s) (\<lambda>j. True) (\<lambda>k. Some (wire [], True)) \<lparr>cred_Username = ''alice'', cred_RefreshToken = ''t''\<rparr>
       \<lparr>cl_conn = wire [], cl_stalls = False, cl_input = \<lparr>in_lines = [''hi''], in_end = StaysOpen\<rparr>, cl_stdout = []\<rparr> =
       Some (Blocked, sleeps, cl2))"
proof -
  let ?cl = "\<lambda>ls. \<lparr>cl_conn = wire [], cl_stalls = False, cl_input = \<lparr>in_lines = ls, in_end = StaysOpen\<rparr>, cl_stdout = []\<rparr>"
  let ?creds = "\<lparr>cred_Username = ''alice'', cred_RefreshToken = ''t''\<rparr>"
  have "waits_for_more (wire [])" by (simp add: waits_for_more_def wire_def)
  then show ?thesis
    using reconnect_outcomes [of "?cl []" "\<lambda>s. s" "\<lambda>j. True" "\<lambda>k. None" ?creds]
      reconnect_outcomes [of "?cl [''hi'']" "\<lambda>s. s" "\<lambda>j. True" "\<lambda>k. Some (wire [], True)" ?creds]
    by (auto simp: maxAttempts_def)
qed

text \<open>
  What the user types is what the server gets: while the connection takes writes, the inner loop of
  \<open>runSession\<close> sends every line up to \<open>/quit\<close> as one frame, unchanged and in order; \<open>/quit\<close> itself ends the
  session and is not sent, and the lines after it are left on the channel.
\<close>

theorem input_loop_sends:
  assumes "in_lines (cl_input cl) = ls @ ''/quit'' # rest" and "''/quit'' \<notin> set ls" and "wcap (cl_conn cl) = None"
  shows "\<exists>cl'. input_loop username (replicate (Suc (length ls)) FromInput @ bs) cl = (Left, cl') \<and>
    outb (cl_conn cl') = outb (cl_conn cl) @ concat (map encode ls) \<and> inb (cl_conn cl') = inb (cl_conn cl) \<and>
    in_lines (cl_input cl') = rest"
  using assms
proof (induction ls arbitrary: cl)
  case (Cons l ls)
  let ?cl = "show_line (username @ '': '') (cl\<lparr>cl_input := (cl_input cl)\<lparr>in_lines := ls @ ''/quit'' # rest\<rparr>,
    cl_conn := (cl_conn cl)\<lparr>outb := outb (cl_conn cl) @ encode l\<rparr>\<rparr>)"
  obtain cl' where "input_loop username (replicate (Suc (length ls)) FromInput @ bs) ?cl = (Left, cl')"
    "outb (cl_conn cl') = outb (cl_conn cl) @ encode l @ concat (map encode ls)" "inb (cl_conn cl') = inb (cl_conn cl)"
    "in_lines (cl_input cl') = rest"
    using Cons.IH [of ?cl] Cons.prems by (auto simp: show_line_def)
  with Cons.prems show ?case by (auto simp: WriteMessage_None Let_def)
qed (simp add: Let_def)

theorem input_loop_sends_witness:
  "\<exists>cl'. input_loop ''alice'' [FromInput, FromInput, FromInput]
     \<lparr>cl_conn = wire [], cl_stalls = False, cl_input = \<lparr>in_lines = [''hi'', ''/join lobby'', ''/quit'', ''x''], in_end = StaysOpen\<rparr>, cl_stdout = []\<rparr> =
     (Left, cl') \<and> outb (cl_conn cl') = encode ''hi'' @ encode ''/join lobby''"
  using input_loop_sends [of "\<lparr>cl_conn = wire [], cl_stalls = False, cl_input = \<lparr>in_lines = [''hi'', ''/join lobby'', ''/quit'', ''x''], in_end = StaysOpen\<rparr>, cl_stdout = []\<rparr>"
      "[''hi'', ''/join lobby'']" "[''x'']" "''alice''" "[]"]
  by (auto simp: wire_def)

end
