(* ===== verification/EndToEnd.thy ===== *)
theory EndToEnd
  imports Commands Client
begin

text \<open>
  The client of cmd/client against the gateway of cmd/server: the login dialogue over one connection,
  what becomes of the token the client keeps, and the protocol of a session.
\<close>

section \<open>Refresh tokens in the running system\<close>

text \<open>Every call of an auth handler is a run of the operations of the auth service.\<close>

lemma grpc_auth_runs:
  "\<exists>ops. snd (grpc_Login A c u p st) = snd (auth_run A ops st)"
  "\<exists>ops. snd (grpc_Register A c u p st) = snd (auth_run A ops st)"
  "\<exists>ops. snd (grpc_Refresh A c t st) = snd (auth_run A ops st)"
proof -
  show "\<exists>ops. snd (grpc_Login A c u p st) = snd (auth_run A ops st)"
    by (intro exI [of _ "[OLogin c u p]"]) (simp add: grpc_Login_def split: prod.splits sum.splits)
  show "\<exists>ops. snd (grpc_Refresh A c t st) = snd (auth_run A ops st)"
    by (intro exI [of _ "[ORefresh c t]"]) (simp add: grpc_Refresh_def split: prod.splits sum.splits)
  obtain r st1 where r: "Register A c u p st = (r, st1)" by fastforce
  show "\<exists>ops. snd (grpc_Register A c u p st) = snd (auth_run A ops st)"
  proof (cases r)
    case None
    with r show ?thesis
      by (intro exI [of _ "[ORegister c u p, OLogin c u p]"]) (simp add: grpc_Register_def split: prod.splits sum.splits)
  next
    case (Some e)
    with r show ?thesis by (intro exI [of _ "[ORegister c u p]"]) (simp add: grpc_Register_def)
  qed
qed

definition hex_auth :: "auth_service \<times> db_state \<Rightarrow> bool" where
  "hex_auth st \<longleftrightarrow> hex_tokens (refreshTokens (fst st))"

lemma hex_auth_run: "hex_auth st \<Longrightarrow> hex_auth (snd (auth_run authService ops st))"
  using repo_auth.run_tokens_hex [of ops st] by (simp add: hex_auth_def) (metis surjective_pairing)

lemma hex_auth_grpc:
  assumes "hex_auth st"
  shows "hex_auth (snd (grpc_Login authService c u p st))" "hex_auth (snd (grpc_Register authService c u p st))"
    "hex_auth (snd (grpc_Refresh authService c t st))"
  using grpc_auth_runs [where A = authService and c = c and st = st] hex_auth_run [OF assms] by metis+

lemma hex_auth_rpc:
  assumes "hex_auth (gw_auth g, gw_db g)" and h: "\<And>call st. hex_auth st \<Longrightarrow> hex_auth (snd (h call st))"
    and "auth_rpc E h g = (res, g')"
  shows "hex_auth (gw_auth g', gw_db g')"
proof -
  let ?fn = "\<lambda>i. rpc (e_rpc E i) (h (pg_user_repo (e_uuid E) (e_ts E) (e_sql E i), e_auth E i))"
  obtain sleeps as db where retry: "retry_from 1 ?fn 3 1000000000 (gw_auth g, gw_db g) = (res, sleeps, (as, db))"
    and g': "g' = g\<lparr>gw_auth := as, gw_db := db\<rparr>"
    using assms(3) by (auto simp: auth_rpc_def callWithRetry_def split: prod.splits)
  have "hex_auth (as, db) \<and> (\<forall>r. res = Inr r \<longrightarrow> True)"
    by (rule retry_from_inv [where I = hex_auth and fn = ?fn and P = "\<lambda>r st. True", OF _ _ _ retry])
      (use assms(1) h in \<open>auto simp: rpc_def split: rpc_fault.splits\<close>)
  then show ?thesis by (simp add: g')
qed

lemma hex_auth_step:
  assumes "hex_auth (gw_auth g, gw_db g)" and "runAuthLoop_step E c pc0 g = (pc, g')"
  shows "hex_auth (gw_auth g', gw_db g')"
proof -
  obtain r g1 where r: "recv c g = (r, g1)" by fastforce
  have h1: "hex_auth (gw_auth g1, gw_db g1)"
    using assms(1) same_but_net_fields [OF same_but_net_recv [OF r]] by simp
  note rpc = hex_auth_rpc [OF h1 hex_auth_grpc(1)] hex_auth_rpc [OF h1 hex_auth_grpc(2)] hex_auth_rpc [OF h1 hex_auth_grpc(3)]
  have close: "gw_auth (close_conn E c None x) = gw_auth x" for x by (simp add: close_conn_def Let_def)
  show ?thesis
    using assms(2) r h1
    by (cases pc0) (auto simp: runAuthLoop_step_def close auth_menu_def auth_register_def auth_login_def auth_refresh_def
        hex_auth_def Let_def split: sum.splits prod.splits if_splits dest!: rpc [unfolded hex_auth_def fst_conv, rotated])
qed

lemma hex_step:
  assumes "sys_step (legal_env uuid sign parse) s s'" and "hex_auth (gw_auth (sys_gw s), gw_db (sys_gw s))"
  shows "hex_auth (gw_auth (sys_gw s'), gw_db (sys_gw s'))"
  using assms(1)
proof cases
  case (auth c E)
  obtain pc g where "runAuthLoop_step E c (sess s c) (sys_gw s) = (pc, g)" by fastforce
  with hex_auth_step [OF assms(2) this] auth(1) show ?thesis by (simp add: goto_def)
next
  case (accept c)
  then show ?thesis using assms(2) by (auto simp: goto_def accept_conn_def hex_auth_def split: prod.splits option.splits)
next
  case (enter c u i E r)
  with same_accounts_enter(1) [of E c u i "sys_gw s" "fst r" "snd r"] assms(2) show ?thesis
    by (simp add: goto_def same_accounts_def hex_auth_def)
next
  case (command c u i rn E r)
  with same_accounts_command(1) [of E c u i rn "sys_gw s" "fst r" "snd r"] assms(2) show ?thesis
    by (simp add: goto_def same_accounts_def hex_auth_def)
next
  case (panic_enter c u i E g)
  with same_accounts_enter(2) [OF panic_enter(5)] assms(2) show ?thesis by (simp add: same_accounts_def hex_auth_def)
next
  case (panic_command c u i rn E g)
  with same_accounts_command(2) [OF panic_command(5)] assms(2) show ?thesis by (simp add: same_accounts_def hex_auth_def)
qed (use assms(2) in \<open>auto simp: hex_auth_def goto_def presence_add_def\<close>)

lemma reachable_hex: "sys_reachable (legal_env uuid sign parse) s \<Longrightarrow> hex_tokens (refreshTokens (gw_auth (sys_gw s)))"
proof (induction rule: sys_reachable.induct)
  case (start db sec net)
  then show ?case by (simp add: sys_init_def start_gateway_def NewAuthService_def hex_tokens_def)
next
  case (step s s')
  with hex_step show ?case by (auto simp: hex_auth_def)
qed

text \<open>What an auth handler refuses every time, the gateway answers with one error, changing nothing.\<close>

lemma refused_rpc:
  assumes "\<And>call. \<exists>e. h call (gw_auth g, gw_db g) = (Inl e, gw_auth g, gw_db g)"
  shows "auth_rpc E h g = (Inl (Err ''max retry attempts reached''), g)"
proof -
  have refused: "\<exists>e. rpc (e_rpc E i) (h (pg_user_repo (e_uuid E) (e_ts E) (e_sql E i), e_auth E i)) (gw_auth g, gw_db g) =
      (Inl e, gw_auth g, gw_db g)" for i
    using assms [of "(pg_user_repo (e_uuid E) (e_ts E) (e_sql E i), e_auth E i)"] by (cases "e_rpc E i") (auto simp: rpc_def)
  obtain e1 e2 e3 where "rpc (e_rpc E 1) (h (pg_user_repo (e_uuid E) (e_ts E) (e_sql E 1), e_auth E 1)) (gw_auth g, gw_db g) = (Inl e1, gw_auth g, gw_db g)"
    "rpc (e_rpc E 2) (h (pg_user_repo (e_uuid E) (e_ts E) (e_sql E 2), e_auth E 2)) (gw_auth g, gw_db g) = (Inl e2, gw_auth g, gw_db g)"
    "rpc (e_rpc E 3) (h (pg_user_repo (e_uuid E) (e_ts E) (e_sql E 3), e_auth E 3)) (gw_auth g, gw_db g) = (Inl e3, gw_auth g, gw_db g)"
    using refused by metis
  then show ?thesis
    by (simp add: auth_rpc_def callWithRetry_def retry_from.simps Let_def numeral_2_eq_2 numeral_3_eq_3)
qed

text \<open>A successful login or registration hands out a token that the JWT library signed.\<close>

lemma auth_rpc_signed:
  fixes res :: "'z session_response_scheme"
  assumes "auth_rpc E h g = (Inr res, g')" and "\<And>i. SignedString (e_auth E i) = sign"
    and h: "\<And>call st r st'. SignedString (snd call) = sign \<Longrightarrow> h call st = (Inr r, st') \<Longrightarrow> \<exists>cl k. sign cl k = Inr (resp_Token r)"
  shows "\<exists>cl k. sign cl k = Inr (resp_Token res)"
proof -
  let ?fn = "\<lambda>i. rpc (e_rpc E i) (h (pg_user_repo (e_uuid E) (e_ts E) (e_sql E i), e_auth E i))"
  obtain sleeps st where retry: "retry_from 1 ?fn 3 1000000000 (gw_auth g, gw_db g) = (Inr res, sleeps, st)"
    using assms(1) by (auto simp: auth_rpc_def callWithRetry_def split: prod.splits)
  have "True \<and> (\<forall>r. (Inr res :: go_error + 'z session_response_scheme) = Inr r \<longrightarrow> (\<exists>cl k. sign cl k = Inr (resp_Token r)))"
    by (rule retry_from_inv [where I = "\<lambda>_. True" and fn = ?fn and P = "\<lambda>(r :: 'z session_response_scheme) st. \<exists>cl k. sign cl k = Inr (resp_Token r)", OF _ _ _ retry])
      (auto simp: rpc_def assms(2) split: rpc_fault.splits dest!: h [rotated])
  then show ?thesis by blast
qed

lemma login_signed:
  assumes "SignedString (snd call) = sign" and "grpc_Login authService call u p st = (Inr r, st')"
  shows "\<exists>cl k. sign cl k = Inr (resp_Token r)"
proof -
  obtain R E as s where call: "call = (R, E)" "st = (as, s)" by fastforce
  obtain a t st1 where l: "as_Login R E u p (as, s) = (Inr (a, t), st1)" and r: "resp_Token r = a"
    using assms(2) call by (auto simp: grpc_Login_def authService_def split: prod.splits sum.splits)
  obtain as1 s1 where "st1 = (as1, s1)" by fastforce
  with l obtain usr :: user where "SignedString E (access_claims E u (user_ID usr)) (secret as) = Inr a"
    by (auto elim!: as_Login_cases)
  with assms(1) call r show ?thesis by auto
qed

lemma register_signed:
  assumes "SignedString (snd call) = sign" and "grpc_Register authService call u p st = (Inr r, st')"
  shows "\<exists>cl k. sign cl k = Inr (resp_Token r)"
proof -
  obtain x st1 where reg: "Register authService call u p st = (x, st1)" by (rule prod.exhaust)
  then have "grpc_Login authService call u p st1 = (Inr r, st')"
    using assms(2) by (auto simp: grpc_Register_def grpc_Login_def split: option.splits prod.splits sum.splits)
  with login_signed assms(1) show ?thesis by blast
qed

section \<open>The login dialogue\<close>

text \<open>One step of the auth loop that reads a frame, as a function of the frame.\<close>

lemma auth_step_frame:
  assumes "inb (gw_net g c) = encode d @ rest" and "fits d"
  shows "runAuthLoop_step E c AuthMenu g = auth_menu E c d (snd (recv c g))"
    "runAuthLoop_step E c LoginName g = (LoginPassword d, say c ''enter your password:'' (snd (recv c g)))"
    "runAuthLoop_step E c (LoginPassword u) g = auth_login E c u d (snd (recv c g))"
    "gw_net (snd (recv c g)) c = (gw_net g c)\<lparr>inb := rest\<rparr>"
    "gw_auth (snd (recv c g)) = gw_auth g" "gw_db (snd (recv c g)) = gw_db g" "gw_presence (snd (recv c g)) = gw_presence g"
proof -
  have r: "recv c g = (Inr d, g\<lparr>gw_net := (gw_net g)(c := (gw_net g c)\<lparr>inb := rest\<rparr>)\<rparr>)"
    by (simp add: recv_def ReadMessage_encode [OF assms])
  show "runAuthLoop_step E c AuthMenu g = auth_menu E c d (snd (recv c g))"
    "runAuthLoop_step E c LoginName g = (LoginPassword d, say c ''enter your password:'' (snd (recv c g)))"
    "runAuthLoop_step E c (LoginPassword u) g = auth_login E c u d (snd (recv c g))"
    by (simp_all add: runAuthLoop_step_def r)
  show "gw_net (snd (recv c g)) c = (gw_net g c)\<lparr>inb := rest\<rparr>"
    "gw_auth (snd (recv c g)) = gw_auth g" "gw_db (snd (recv c g)) = gw_db g" "gw_presence (snd (recv c g)) = gw_presence g"
    by (simp_all add: r)
qed

lemma say_None:
  "wcap (gw_net g c) = None \<Longrightarrow> gw_net (say c txt g) c = (gw_net g c)\<lparr>outb := outb (gw_net g c) @ encode txt\<rparr>"
  by (simp add: say_def send_snd WriteMessage_None)

section \<open>Properties\<close>

text \<open>
  C7. The login dialogue, client against gateway: a user types \<open>/login\<close>, a name and a password; the
  gateway reads what the client writes and the client reads what the gateway writes, other sessions
  running in between. If the auth service lets the user in and the name is not present yet, then the
  gateway's session is authenticated with the name and ID of the response, and the client finishes with
  the name typed and the token of the response in lower case, having sent exactly the three lines.
\<close>

theorem login_dialogue:
  assumes "inb (gw_net ga c) = encode ''/login'' @ encode u @ encode p" and "fits u" and "fits p"
    and "outb (gw_net ga c) = encode ''welcome to relay-go. /register or /login:''" and "wcap (gw_net ga c) = None"
    and "runAuthLoop_step Ea c AuthMenu ga = (pcb, gb')" and "gw_net gb c = gw_net gb' c"
    and "runAuthLoop_step Eb c pcb gb = (pcc, gc')" and "gw_net gc c = gw_net gc' c"
    and "runAuthLoop_step Ec c pcc gc = (pcd, gd)"
    and "fst (auth_rpc Ec (\<lambda>call. grpc_Login authService call u p) (snd (recv c gc))) = Inr res"
    and "resp_Username res \<notin> set (ps_List (e_ord Ec) (gw_presence gc))"
    and "fits (''refresh:'' @ resp_Token res)" and "is_ascii (resp_Token res)"
    and "\<not> Contains (''refresh:'' @ map lower_byte (resp_Token res)) ''successful''"
    and "\<not> Contains (''refresh:'' @ map lower_byte (resp_Token res)) ''already logged in''"
    and "inb (cl_conn cl) = outb (gw_net gd c)" and "outb (cl_conn cl) = []" and "wcap (cl_conn cl) = None"
    and "in_lines (cl_input cl) = ''/login'' # u # p # ls" and "\<not> ready 0"
  shows "pcd = Authenticated (resp_Username res) (resp_UserId res) \<and>
    (\<exists>cl'. runAuthHandshake uni ready cl =
       Some (Returned \<lparr>cred_Username = u, cred_RefreshToken = map lower_byte (resp_Token res)\<rparr>, cl') \<and>
     outb (cl_conn cl') = inb (gw_net ga c) \<and> in_lines (cl_input cl') = ls)"
proof -
  have f: "fits ''/login''" by (simp add: fits_def)
  note sa = auth_step_frame [OF assms(1) f]
  have trim: "TrimSpace ''/login'' = ''/login''" by (rule TrimSpace_word) (simp add: printable_def)
  have b: "pcb = LoginName" "gb' = say c ''enter your username:'' (snd (recv c ga))"
    using assms(6) by (simp_all add: sa(1) auth_menu_def trim)
  have nb: "gw_net gb c = (gw_net ga c)\<lparr>inb := encode u @ encode p, outb := outb (gw_net ga c) @ encode ''enter your username:''\<rparr>"
    using assms(5,7) by (simp add: b say_None sa(4))
  then have "inb (gw_net gb c) = encode u @ encode p" by simp
  note sb = auth_step_frame [OF this assms(2)]
  have c: "pcc = LoginPassword u" "gc' = say c ''enter your password:'' (snd (recv c gb))"
    using assms(8) by (simp_all add: b sb(2))
  have nc: "gw_net gc c = (gw_net ga c)\<lparr>inb := encode p,
      outb := outb (gw_net ga c) @ encode ''enter your username:'' @ encode ''enter your password:''\<rparr>"
    using assms(5,9) by (simp add: c say_None sb(4) nb)
  then have "inb (gw_net gc c) = encode p @ []" by simp
  note sc = auth_step_frame [OF this assms(3)]
  obtain g1 where rpc: "auth_rpc Ec (\<lambda>call. grpc_Login authService call u p) (snd (recv c gc)) = (Inr res, g1)"
    using assms(11) by (metis prod.collapse)
  have g1: "gw_net g1 = gw_net (snd (recv c gc))" "gw_presence g1 = gw_presence gc"
    using rpc sc(7) by (auto simp: auth_rpc_def split: prod.splits)
  have d: "pcd = Authenticated (resp_Username res) (resp_UserId res)"
    "gd = say c (''refresh:'' @ resp_Token res) (say c ''login successful'' g1)"
    using assms(10,12) by (simp_all add: c sc(3) auth_login_def rpc g1(2))
  have "outb (gw_net gd c) = encode ''welcome to relay-go. /register or /login:'' @ encode ''enter your username:'' @
      encode ''enter your password:'' @ encode ''login successful'' @ encode (''refresh:'' @ resp_Token res) @ []"
    using assms(4,5) by (simp add: d say_None g1(1) sc(4) nc)
  with assms(17) have "inb (cl_conn cl) = \<dots>" by simp
  from client_login [OF this assms(20,19) _ assms(13-16), of uni "''''"]
  obtain out where "handshake_loop uni '''' cl = (Returned \<lparr>cred_Username = u, cred_RefreshToken = map lower_byte (resp_Token res)\<rparr>,
    cl\<lparr>cl_conn := (cl_conn cl)\<lparr>inb := [], outb := outb (cl_conn cl) @ encode ''/login'' @ encode u @ encode p\<rparr>,
       cl_input := (cl_input cl)\<lparr>in_lines := ls\<rparr>, cl_stdout := out\<rparr>)" by auto
  moreover have "drainInput ready 0 (cl_input cl) = Some (cl_input cl)"
    using assms(20,21) by (intro drainInput_idle) simp_all
  moreover have "cl\<lparr>cl_input := cl_input cl\<rparr> = cl" by simp
  ultimately show ?thesis using d(1) assms(1,18) by (simp add: runAuthHandshake_def)
qed

lemma run_login_rpc:
  assumes "gw_auth g = NewAuthService ''key''" and "gw_db g = alice_db"
  shows "fst (auth_rpc run_env (\<lambda>call. grpc_Login authService call ''alice'' ''pw'') g) =
    Inr \<lparr>resp_Username = ''alice'', resp_UserId = ''u1'', resp_Token = ''h.c.s''\<rparr>"
proof -
  have "secret (NewAuthService ''key'') = ''key''" by (simp add: NewAuthService_def)
  from run_login [OF this] show ?thesis
    by (auto simp: auth_rpc_def callWithRetry_def retry_from.simps rpc_def run_env_def assms)
qed

theorem login_dialogue_witness:
  "\<exists>(gd :: gateway) cl'. runAuthHandshake (\<lambda>s. s) (\<lambda>j. False)
     \<lparr>cl_conn = wire (outb (gw_net gd 7)), cl_stalls = False, cl_input = \<lparr>in_lines = [''/login'', ''alice'', ''pw''], in_end = StaysOpen\<rparr>, cl_stdout = []\<rparr> =
     Some (Returned \<lparr>cred_Username = ''alice'', cred_RefreshToken = ''h.c.s''\<rparr>, cl') \<and>
   outb (cl_conn cl') = encode ''/login'' @ encode ''alice'' @ encode ''pw''"
proof -
  let ?net = "\<lambda>_. \<lparr>inb = encode ''/login'' @ encode ''alice'' @ encode ''pw'', rerr = EOF,
    outb = encode ''welcome to relay-go. /register or /login:'', wcap = None\<rparr>"
  let ?res = "\<lparr>resp_Username = ''alice'', resp_UserId = ''u1'', resp_Token = ''h.c.s''\<rparr>"
  let ?ga = "start_gateway ''key'' alice_db ?net"
  have fits: "fits ''/login''" "fits ''alice''" "fits ''pw''" "fits (''refresh:'' @ resp_Token ?res)" by (simp_all add: fits_def)
  have ina: "inb (gw_net ?ga 7) = encode ''/login'' @ encode ''alice'' @ encode ''pw''" by (simp add: start_gateway_def)
  have trim: "TrimSpace ''/login'' = ''/login''" by (rule TrimSpace_word) (simp add: printable_def)
  note a = auth_step_frame [OF ina fits(1)]
  obtain gb where b: "runAuthLoop_step run_env 7 AuthMenu ?ga = (LoginName, gb)" and fb: "gb = say 7 ''enter your username:'' (snd (recv 7 ?ga))"
    by (simp add: a(1) auth_menu_def trim)
  have inb: "inb (gw_net gb 7) = encode ''alice'' @ encode ''pw''" by (simp add: fb a(4))
  note sb = auth_step_frame [OF inb fits(2)]
  obtain gc where c: "runAuthLoop_step run_env 7 LoginName gb = (LoginPassword ''alice'', gc)" and fc: "gc = say 7 ''enter your password:'' (snd (recv 7 gb))"
    by (simp add: sb(2))
  have inc: "inb (gw_net gc 7) = encode ''pw'' @ []" by (simp add: fc sb(4))
  note sc = auth_step_frame [OF inc fits(3)]
  obtain pcd gd where d: "runAuthLoop_step run_env 7 (LoginPassword ''alice'') gc = (pcd, gd)" by fastforce
  have gb: "gw_auth gb = NewAuthService ''key''" "gw_db gb = alice_db" "gw_presence gb = NewInMemoryPresenceStore"
    unfolding fb say_fields a by (simp_all add: start_gateway_def)
  have gc: "gw_auth gc = NewAuthService ''key''" "gw_db gc = alice_db" "gw_presence gc = NewInMemoryPresenceStore"
    by (simp_all add: fc sb gb)
  have rpc: "fst (auth_rpc run_env (\<lambda>call. grpc_Login authService call ''alice'' ''pw'') (snd (recv 7 gc))) = Inr ?res"
    by (rule run_login_rpc) (simp_all add: sc gc)
  have absent: "resp_Username ?res \<notin> set (ps_List (e_ord run_env) (gw_presence gc))"
    by (simp add: gc NewInMemoryPresenceStore_def ps_List_def run_env_def sorted_list_of_fset.rep_eq)
  have tok: "is_ascii (resp_Token ?res)" "map lower_byte (resp_Token ?res) = ''h.c.s''" by (simp_all add: is_ascii_def lower_byte_def)
  let ?cl = "\<lparr>cl_conn = wire (outb (gw_net gd 7)), cl_stalls = False, cl_input = \<lparr>in_lines = [''/login'', ''alice'', ''pw''], in_end = StaysOpen\<rparr>, cl_stdout = []\<rparr>"
  have net: "outb (gw_net ?ga 7) = encode ''welcome to relay-go. /register or /login:''" "wcap (gw_net ?ga 7) = None"
    by (simp_all add: start_gateway_def)
  have words: "\<not> Contains (''refresh:'' @ map lower_byte (resp_Token ?res)) ''successful''"
    "\<not> Contains (''refresh:'' @ map lower_byte (resp_Token ?res)) ''already logged in''"
    unfolding tok by simp_all
  have cl: "inb (cl_conn ?cl) = outb (gw_net gd 7)" "outb (cl_conn ?cl) = []" "wcap (cl_conn ?cl) = None"
    "in_lines (cl_input ?cl) = ''/login'' # ''alice'' # ''pw'' # []" "\<not> (\<lambda>j. False) (0 :: nat)" by (simp_all add: wire_def)
  from login_dialogue [OF ina fits(2,3) net b refl c refl d rpc absent fits(4) tok(1) words cl, of "\<lambda>s. s", unfolded tok(2) ina]
  obtain cl' where "runAuthHandshake (\<lambda>s. s) (\<lambda>j. False) ?cl =
      Some (Returned \<lparr>cred_Username = ''alice'', cred_RefreshToken = ''h.c.s''\<rparr>, cl')"
    "outb (cl_conn cl') = encode ''/login'' @ encode ''alice'' @ encode ''pw''"
    by (elim conjE exE)
  then show ?thesis by blast
qed

text \<open>
  C21. Silent re-authentication never works after a login or registration. The token the gateway hands
  out then is the access token, whose compact serialisation has dots, and the client keeps it in lower
  case; the auth service holds hexadecimal refresh tokens only. So in every state the system can reach
  the gateway refuses that token in \<open>/refresh\<close>, and the client, which reads the gateway's prompts, gives up
  with the gateway's error after it sent \<open>/refresh\<close> and the token.
\<close>

theorem silent_auth_fails_after_login:
  assumes "auth_rpc E0 h g0 = (Inr res, g1)"
    and "h \<in> {\<lambda>call. grpc_Login authService call u p, \<lambda>call. grpc_Register authService call u p}"
    and "\<forall>i. SignedString (e_auth E0 i) = sign"
    and "\<forall>cl k t. sign cl k = Inr t \<longrightarrow> CHR ''.'' \<in> set t"
    and "sys_reachable (legal_env uuid sign parse) s"
    and "cred_RefreshToken creds = map lower_byte (resp_Token res)"
    and "inb (cl_conn cl) = encode ''welcome to relay-go. /register or /login:'' @ encode ''enter your refresh token:'' @
      encode ''auth service unavailable, please try again later'' @ rest" and "wcap (cl_conn cl) = None"
  shows "auth_refresh E c (cred_RefreshToken creds) (sys_gw s) =
      (AuthMenu, sendError c ''auth service unavailable, please try again later'' (sys_gw s)) \<and>
    (\<exists>cl'. runSilentAuth uni creds cl = (Returned (Inl (Err ''auth service unavailable, please try again later'')), cl') \<and>
       outb (cl_conn cl') = outb (cl_conn cl) @ encode ''/refresh'' @ encode (cred_RefreshToken creds))"
proof -
  have "\<exists>cl k. sign cl k = Inr (resp_Token r)" if "SignedString (snd call) = sign" "h call st = (Inr r, st')" for call st r st'
    using assms(2) that(2) login_signed [OF that(1)] register_signed [OF that(1)] by (elim insertE emptyE) simp_all
  then have "\<exists>cl k. sign cl k = Inr (resp_Token res)" by (intro auth_rpc_signed [OF assms(1) assms(3) [rule_format]])
  then have "CHR ''.'' \<in> set (resp_Token res)" using assms(4) by blast
  then have dot: "CHR ''.'' \<in> set (cred_RefreshToken creds)"
    unfolding assms(6) set_map by (rule rev_image_eqI) (simp add: lower_byte_def)
  have "\<not> is_hex (cred_RefreshToken creds)"
  proof
    assume "is_hex (cred_RefreshToken creds)"
    with dot have "CHR ''.'' \<in> set ''0123456789abcdef''" unfolding is_hex_def list_all_iff by (rule bspec [rotated])
    then show False by simp
  qed
  with reachable_hex [OF assms(5)] have none: "fmlookup (refreshTokens (gw_auth (sys_gw s))) (cred_RefreshToken creds) = None"
    by (auto simp: hex_tokens_def fmdom_lookup)
  have gateway: "auth_refresh E c (cred_RefreshToken creds) (sys_gw s) =
      (AuthMenu, sendError c ''auth service unavailable, please try again later'' (sys_gw s))"
    by (simp add: auth_refresh_def refused_rpc refresh_dead [OF none])
  show ?thesis using gateway silent_refused [OF assms(7,8)] by blast
qed

theorem silent_auth_fails_after_login_witness:
  "\<exists>cl'. runSilentAuth (\<lambda>s. s) \<lparr>cred_Username = ''alice'', cred_RefreshToken = ''h.c.s''\<rparr>
     \<lparr>cl_conn = wire (encode ''welcome to relay-go. /register or /login:'' @ encode ''enter your refresh token:'' @
        encode ''auth service unavailable, please try again later''), cl_stalls = False,
      cl_input = \<lparr>in_lines = [], in_end = StaysOpen\<rparr>, cl_stdout = []\<rparr> =
     (Returned (Inl (Err ''auth service unavailable, please try again later'')), cl')"
proof -
  let ?net = "\<lambda>_. \<lparr>inb = [], rerr = EOF, outb = [], wcap = None\<rparr>"
  let ?g = "start_gateway ''key'' alice_db ?net"
  let ?h = "\<lambda>call. grpc_Login authService call ''alice'' ''pw''"
  let ?res = "\<lparr>resp_Username = ''alice'', resp_UserId = ''u1'', resp_Token = ''h.c.s''\<rparr>"
  let ?creds = "\<lparr>cred_Username = ''alice'', cred_RefreshToken = ''h.c.s''\<rparr>"
  let ?w = "encode ''welcome to relay-go. /register or /login:'' @ encode ''enter your refresh token:'' @
        encode ''auth service unavailable, please try again later''"
  let ?cl = "\<lparr>cl_conn = wire ?w, cl_stalls = False, cl_input = \<lparr>in_lines = [], in_end = StaysOpen\<rparr>, cl_stdout = []\<rparr>"
  obtain g1 where rpc: "auth_rpc run_env ?h ?g = (Inr ?res, g1)"
    using run_login_rpc [of ?g] by (cases "auth_rpc run_env ?h ?g") (simp add: start_gateway_def)
  have sign: "\<forall>i. SignedString (e_auth run_env i) = run_sign" by (simp add: run_env_def witness_env_def)
  have dots: "\<forall>cl k t. run_sign cl k = Inr t \<longrightarrow> CHR ''.'' \<in> set t"
    by (auto simp: one_token_sign_def split: if_splits)
  have start: "sys_reachable (legal_env Some run_sign run_parse) (sys_init ''key'' alice_db ?net)"
    by (rule sys_reachable.start [OF alice_db_inv])
  have tok: "cred_RefreshToken ?creds = map lower_byte (resp_Token ?res)" by (simp add: lower_byte_def)
  have cl: "inb (cl_conn ?cl) = encode ''welcome to relay-go. /register or /login:'' @ encode ''enter your refresh token:'' @
      encode ''auth service unavailable, please try again later'' @ []" "wcap (cl_conn ?cl) = None" by (simp_all add: wire_def)
  have h: "?h \<in> {?h, \<lambda>call. grpc_Register authService call ''alice'' ''pw''}" by (rule insertI1)
  from silent_auth_fails_after_login [OF rpc h sign dots start tok cl, where uni = "\<lambda>s. s" and E = run_env and c = 7]
  show ?thesis by blast
qed

end
