(* ===== verification/Startup.thy ===== *)
theory Startup
  imports Gateway Cleanup
begin

text \<open>
  The start of the four servers: \<open>main\<close> of cmd/server, cmd/auth-service, cmd/messaging-service and
  cmd/presence-service with internal/db and \<open>events.Connect\<close>. What a program does before it serves is a
  list of actions; \<open>os.Exit(1)\<close> is \<open>None\<close>. The outcomes of the foreign calls are the fields of \<open>outside\<close>;
  \<open>env\<close> is \<open>os.Getenv\<close>, the empty string for a variable that is not set.
\<close>

section \<open>Actions\<close>

datatype action =
    ConnectDB string
  | Migrate string
  | StartCleanup int
  | DialService string
  | ConnectNATS string
  | Listen string
  | Subscribe string
  | Serve

type_synonym 'a boot = "action list \<times> 'a option"

text \<open>Go on after a step that did not exit.\<close>

fun boot_then :: "'a boot \<Rightarrow> ('a \<Rightarrow> 'b boot) \<Rightarrow> 'b boot" where
  "boot_then (acts, None) f = (acts, None)"
| "boot_then (acts, Some a) f = (acts @ fst (f a), snd (f a))"

text \<open>A call whose error ends the program, and a variable that must be set.\<close>

definition perform :: "action \<Rightarrow> go_error + 'a \<Rightarrow> 'a boot" where
  "perform act r = ([act], case r of Inl e \<Rightarrow> None | Inr a \<Rightarrow> Some a)"

definition required :: "(string \<Rightarrow> string) \<Rightarrow> string \<Rightarrow> string boot" where
  "required env name = ([], if env name = '''' then None else Some (env name))"

section \<open>internal/db and internal/events\<close>

datatype migration = Applied | ErrNoChange | UpFailed go_error

record outside =
  sql_Open :: "string \<Rightarrow> go_error option"
  sql_Ping :: "string \<Rightarrow> go_error option"
  WithInstance :: "go_error option"
  NewWithDatabaseInstance :: "string \<Rightarrow> go_error option"
  migrate_Up :: migration
  grpc_NewClient :: "string \<Rightarrow> go_error option"
  nats_Connect :: "string \<Rightarrow> go_error option"
  net_Listen :: "string \<Rightarrow> go_error option"
  grpc_Serve :: "go_error option"

text \<open>The pool that \<open>Connect\<close> returns: its limits, and the lifetime of a connection in nanoseconds.\<close>

record sql_DB =
  MaxOpenConns :: int
  MaxIdleConns :: int
  ConnMaxLifetime :: int

definition db_Connect :: "outside \<Rightarrow> string \<Rightarrow> go_error + sql_DB" where
  "db_Connect F databaseURL =
     (case sql_Open F databaseURL of
        Some err \<Rightarrow> Inl (Wrap ''failed to open database'' err)
      | None \<Rightarrow>
          (let db = \<lparr>MaxOpenConns = 25, MaxIdleConns = 25, ConnMaxLifetime = 5 * 60 * 1000000000\<rparr> in
           case sql_Ping F databaseURL of
             Some err \<Rightarrow> Inl (Wrap ''failed to verify database connection'' err)
           | None \<Rightarrow> Inr db))"

definition RunMigrations :: "outside \<Rightarrow> string \<Rightarrow> go_error + unit" where
  "RunMigrations F migrationsPath =
     (case WithInstance F of
        Some err \<Rightarrow> Inl (Wrap ''failed to create migration driver'' err)
      | None \<Rightarrow>
          (case NewWithDatabaseInstance F (''file://'' @ migrationsPath) of
             Some err \<Rightarrow> Inl (Wrap ''failed to migrate database'' err)
           | None \<Rightarrow>
               (case migrate_Up F of
                  UpFailed err \<Rightarrow> Inl (Wrap ''failed to run migrates'' err)
                | ErrNoChange \<Rightarrow> Inr ()
                | Applied \<Rightarrow> Inr ())))"

definition events_Connect :: "outside \<Rightarrow> string \<Rightarrow> go_error + unit" where
  "events_Connect F url =
     (case nats_Connect F url of
        Some err \<Rightarrow> Inl (Wrap ''failed to connect to nats server'' err)
      | None \<Rightarrow> Inr ())"

text \<open>A library call whose value only matters to later library calls.\<close>

definition call :: "go_error option \<Rightarrow> go_error + unit" where
  "call r = (case r of Some err \<Rightarrow> Inl err | None \<Rightarrow> Inr ())"

section \<open>The programs\<close>

text \<open>The gateway, up to the listener; the accept loop follows, with \<open>start_gateway\<close> as its state.\<close>

definition gateway_main :: "outside \<Rightarrow> (string \<Rightarrow> string) \<Rightarrow> string \<Rightarrow> unit boot" where
  "gateway_main F env address =
     boot_then (required env ''DATABASE_URL'') (\<lambda>databaseURL.
     boot_then (perform (ConnectDB databaseURL) (db_Connect F databaseURL)) (\<lambda>database.
     let migrationsPath = (if env ''MIGRATIONS_PATH'' = '''' then ''db/migrations'' else env ''MIGRATIONS_PATH'') in
     boot_then (perform (Migrate migrationsPath) (RunMigrations F migrationsPath)) (\<lambda>_.
     let retention = retention_of (retention_days (env ''RETENTION_DAYS'')) in
     boot_then (perform (StartCleanup retention) (Inr ())) (\<lambda>_.
     boot_then (required env ''AUTH_SERVICE_ADDR'') (\<lambda>authServiceAddr.
     boot_then (perform (DialService authServiceAddr) (call (grpc_NewClient F authServiceAddr))) (\<lambda>_.
     boot_then (required env ''MESSAGING_SERVICE_ADDR'') (\<lambda>messagingServiceAddr.
     boot_then (perform (DialService messagingServiceAddr) (call (grpc_NewClient F messagingServiceAddr))) (\<lambda>_.
     boot_then (required env ''PRESENCE_SERVICE_ADDR'') (\<lambda>presenceServiceAddr.
     boot_then (perform (DialService presenceServiceAddr) (call (grpc_NewClient F presenceServiceAddr))) (\<lambda>_.
     boot_then (required env ''NATS_URL'') (\<lambda>natsURL.
     boot_then (perform (ConnectNATS natsURL) (events_Connect F natsURL)) (\<lambda>_.
     perform (Listen address) (call (net_Listen F address))))))))))))))"

text \<open>
  The services give the state they serve, until \<open>Serve\<close> returns without an error. The presence service
  ignores the error of its subscription.
\<close>

definition auth_main :: "outside \<Rightarrow> (string \<Rightarrow> string) \<Rightarrow> string \<Rightarrow> auth_service boot" where
  "auth_main F env address =
     (let secret = (if env ''JWT_SECRET'' = '''' then ''dev-secret-change-me'' else env ''JWT_SECRET'') in
     boot_then (required env ''DATABASE_URL'') (\<lambda>databaseURL.
     boot_then (perform (ConnectDB databaseURL) (db_Connect F databaseURL)) (\<lambda>database.
     boot_then (perform (Listen address) (call (net_Listen F address))) (\<lambda>_.
     let authService = NewAuthService secret in
     boot_then (perform Serve (call (grpc_Serve F))) (\<lambda>_. ([], Some authService))))))"

definition messaging_main :: "outside \<Rightarrow> (string \<Rightarrow> string) \<Rightarrow> string \<Rightarrow> room_store boot" where
  "messaging_main F env address =
     boot_then (required env ''DATABASE_URL'') (\<lambda>databaseURL.
     boot_then (perform (ConnectDB databaseURL) (db_Connect F databaseURL)) (\<lambda>database.
     boot_then (perform (Listen address) (call (net_Listen F address))) (\<lambda>_.
     let messagingService = NewRoomStore in
     boot_then (perform Serve (call (grpc_Serve F))) (\<lambda>_. ([], Some messagingService)))))"

definition presence_main :: "outside \<Rightarrow> (string \<Rightarrow> string) \<Rightarrow> string \<Rightarrow> online_store boot" where
  "presence_main F env address =
     boot_then (required env ''NATS_URL'') (\<lambda>natsURL.
     boot_then (perform (ConnectNATS natsURL) (events_Connect F natsURL)) (\<lambda>_.
     boot_then (perform (Listen address) (call (net_Listen F address))) (\<lambda>_.
     let presenceService = NewOnlineStore in
     boot_then (perform (Subscribe SubjectUserPresence) (Inr ())) (\<lambda>_.
     boot_then (perform Serve (call (grpc_Serve F))) (\<lambda>_. ([], Some presenceService))))))"

section \<open>Lemmas\<close>

text \<open>A start-up that follows a plan, and succeeds exactly under a condition; and its rules, step by step.\<close>

definition boots :: "action list \<Rightarrow> bool \<Rightarrow> unit boot \<Rightarrow> bool" where
  "boots plan ok b \<longleftrightarrow> prefix (fst b) plan \<and> (snd b = Some () \<longleftrightarrow> ok) \<and> (ok \<longrightarrow> fst b = plan)"

lemma boots_required:
  "boots plan ok (f (env name)) \<Longrightarrow> boots plan (env name \<noteq> '''' \<and> ok) (boot_then (required env name) f)"
  by (auto simp: boots_def required_def)

lemma boots_perform:
  "(\<And>x. boots plan ok (f x)) \<Longrightarrow> boots (act # plan) ((\<exists>x. r = Inr x) \<and> ok) (boot_then (perform act r) f)"
  by (cases r) (auto simp: boots_def perform_def)

lemma boots_last: "boots [act] (\<exists>x. r = Inr x) (perform act r)"
  by (cases r) (auto simp: boots_def perform_def)

lemma outside_calls:
  "(\<exists>x. db_Connect F url = Inr x) \<longleftrightarrow> sql_Open F url = None \<and> sql_Ping F url = None"
  "(\<exists>x. RunMigrations F path = Inr x) \<longleftrightarrow> WithInstance F = None \<and>
     NewWithDatabaseInstance F (''file://'' @ path) = None \<and> migrate_Up F \<in> {Applied, ErrNoChange}"
  "(\<exists>x. events_Connect F url = Inr x) \<longleftrightarrow> nats_Connect F url = None"
  "(\<exists>x. call r = Inr x) \<longleftrightarrow> r = None"
  "(\<exists>x. (Inr () :: go_error + unit) = Inr x) \<longleftrightarrow> True"
  by (auto simp: db_Connect_def RunMigrations_def events_Connect_def call_def Let_def split: option.splits migration.splits)

lemmas boots_rules = boots_required boots_perform boots_last

section \<open>Properties\<close>

text \<open>
  C38. The start of the gateway: it listens if and only if the five required variables are set and every
  library call succeeds, an up-to-date schema included. In every case what it did is an initial part of one
  plan fixed by the environment: the migrations run before the cleanup worker starts, with the retention of
  \<open>RETENTION_DAYS\<close>, and the listener comes last. So the cleanup may already be deleting messages when a missing
  address makes the gateway exit.
\<close>

theorem gateway_serves_iff:
  "let path = (if env ''MIGRATIONS_PATH'' = '''' then ''db/migrations'' else env ''MIGRATIONS_PATH'');
       plan = [ConnectDB (env ''DATABASE_URL''), Migrate path,
         StartCleanup (retention_of (retention_days (env ''RETENTION_DAYS''))), DialService (env ''AUTH_SERVICE_ADDR''),
         DialService (env ''MESSAGING_SERVICE_ADDR''), DialService (env ''PRESENCE_SERVICE_ADDR''),
         ConnectNATS (env ''NATS_URL''), Listen address];
       r = gateway_main F env address;
       ok = (env ''DATABASE_URL'' \<noteq> '''' \<and> sql_Open F (env ''DATABASE_URL'') = None \<and> sql_Ping F (env ''DATABASE_URL'') = None \<and>
         WithInstance F = None \<and> NewWithDatabaseInstance F (''file://'' @ path) = None \<and> migrate_Up F \<in> {Applied, ErrNoChange} \<and>
         env ''AUTH_SERVICE_ADDR'' \<noteq> '''' \<and> grpc_NewClient F (env ''AUTH_SERVICE_ADDR'') = None \<and>
         env ''MESSAGING_SERVICE_ADDR'' \<noteq> '''' \<and> grpc_NewClient F (env ''MESSAGING_SERVICE_ADDR'') = None \<and>
         env ''PRESENCE_SERVICE_ADDR'' \<noteq> '''' \<and> grpc_NewClient F (env ''PRESENCE_SERVICE_ADDR'') = None \<and>
         env ''NATS_URL'' \<noteq> '''' \<and> nats_Connect F (env ''NATS_URL'') = None \<and> net_Listen F address = None)
   in prefix (fst r) plan \<and> (snd r = Some () \<longleftrightarrow> ok) \<and> (ok \<longrightarrow> fst r = plan)"
proof -
  let ?path = "if env ''MIGRATIONS_PATH'' = '''' then ''db/migrations'' else env ''MIGRATIONS_PATH''"
  let ?plan = "[ConnectDB (env ''DATABASE_URL''), Migrate ?path,
         StartCleanup (retention_of (retention_days (env ''RETENTION_DAYS''))), DialService (env ''AUTH_SERVICE_ADDR''),
         DialService (env ''MESSAGING_SERVICE_ADDR''), DialService (env ''PRESENCE_SERVICE_ADDR''),
         ConnectNATS (env ''NATS_URL''), Listen address]"
  have "boots ?plan
      (env ''DATABASE_URL'' \<noteq> '''' \<and> (\<exists>x. db_Connect F (env ''DATABASE_URL'') = Inr x) \<and> (\<exists>x. RunMigrations F ?path = Inr x) \<and>
       (\<exists>x. (Inr () :: go_error + unit) = Inr x) \<and>
       env ''AUTH_SERVICE_ADDR'' \<noteq> '''' \<and> (\<exists>x. call (grpc_NewClient F (env ''AUTH_SERVICE_ADDR'')) = Inr x) \<and>
       env ''MESSAGING_SERVICE_ADDR'' \<noteq> '''' \<and> (\<exists>x. call (grpc_NewClient F (env ''MESSAGING_SERVICE_ADDR'')) = Inr x) \<and>
       env ''PRESENCE_SERVICE_ADDR'' \<noteq> '''' \<and> (\<exists>x. call (grpc_NewClient F (env ''PRESENCE_SERVICE_ADDR'')) = Inr x) \<and>
       env ''NATS_URL'' \<noteq> '''' \<and> (\<exists>x. events_Connect F (env ''NATS_URL'') = Inr x) \<and> (\<exists>x. call (net_Listen F address) = Inr x))
      (gateway_main F env address)"
    unfolding gateway_main_def Let_def by (rule boots_rules)+
  note run = this [unfolded boots_def outside_calls conj_assoc simp_thms]
  show ?thesis
    unfolding Let_def by (rule run)
qed

text \<open>With every variable set and an outside world that works, the gateway starts.\<close>

theorem gateway_serves_iff_witness:
  "snd (gateway_main \<lparr>sql_Open = \<lambda>_. None, sql_Ping = \<lambda>_. None, WithInstance = None, NewWithDatabaseInstance = \<lambda>_. None,
     migrate_Up = ErrNoChange, grpc_NewClient = \<lambda>_. None, nats_Connect = \<lambda>_. None, net_Listen = \<lambda>_. None, grpc_Serve = None\<rparr>
     (\<lambda>_. ''x'') '':8080'') = Some ()"
  using gateway_serves_iff [where env = "\<lambda>_. ''x''" and address = "'':8080''" and
     F = "\<lparr>sql_Open = \<lambda>_. None, sql_Ping = \<lambda>_. None, WithInstance = None,
       NewWithDatabaseInstance = \<lambda>_. None, migrate_Up = ErrNoChange, grpc_NewClient = \<lambda>_. None, nats_Connect = \<lambda>_. None,
       net_Listen = \<lambda>_. None, grpc_Serve = None\<rparr>"]
  by (simp add: Let_def)

end
