(* ===== verification/Spec2Isabelle.thy ===== *)
theory Spec2Isabelle
  imports Prelude GoStd Protocol Domain Limiter SlidingWindow Float64 TokenBucket ConnRegistry Presence
    Repository Cleanup Membership RepoHistory RoomStore Router Auth Services Gateway System Sessions Commands
    PresenceFeed RoomIds SecondSession Client EndToEnd Startup
begin

text \<open>
  relay-go is a chat system: a TCP gateway (cmd/server) for terminal clients (cmd/client), and three
  gRPC services behind it for accounts (cmd/auth-service), rooms (cmd/messaging-service) and online
  users (cmd/presence-service), with PostgreSQL and NATS below. This development models its Go code
  and proves what makes each part correct.

  \<^bold>\<open>Conventions.\<close> A Go struct is a record, a method a function of its receiver's record that returns the
  result and the new record; a method that holds a mutex for its whole body is one step. Errors are
  values of \<open>go_error\<close>, as \<open>go_error option\<close> or \<open>go_error + 'a\<close>. Strings and byte slices are lists of bytes
  (\<open>string\<close>), maps are finite maps, the order in which \<open>range\<close> visits a map is a parameter that every
  theorem quantifies over. Clock readings, fresh UUIDs, random bytes and the outcomes of foreign calls
  (driver, network, bcrypt, JWT, NATS) are arguments; what a theorem needs of them is a hypothesis. So is what
  a \<open>TIMESTAMP\<close> column keeps of a time (\<open>ts\<close>): it has no zone and no nanoseconds.

  \<^bold>\<open>Theories, from the leaves.\<close>
  \<^item> Prelude, GoStd, Float64: errors, instants, map iteration; the string functions of the Go library
    the program uses; rounding to float64 on rationals.
  \<^item> Protocol (internal/protocol): frames over connections that may fail at any byte.
  \<^item> Domain (internal/domain): entities, events, validation of names.
  \<^item> Limiter with SlidingWindow and TokenBucket (internal/ratelimit): the interface of a registry of
    limiters as the locale \<open>keyed_limiter\<close>, and the two algorithms.
  \<^item> ConnRegistry (internal/server), Presence (internal/presence and the subscriber of
    cmd/presence-service).
  \<^item> Repository (internal/repository): the SQL statements as functions on tables; the interfaces of
    rooms and users as the locales \<open>room_repository\<close> and \<open>user_repository\<close>, interpreted on PostgreSQL with
    any outcome of its statements. Cleanup (internal/db/cleanup.go and the retention of cmd/server).
  \<^item> Membership, RoomStore, Router (internal/messaging): the contract of room membership as the locale
    \<open>room_membership\<close>, interpreted on the messaging service's store, on the gateway's router and, in RepoHistory,
    on the table of room members; RepoHistory also has the life of a message.
  \<^item> Auth (internal/auth): both implementations of \<open>AuthService\<close>, the contract of refresh tokens as the
    locale \<open>auth_service_contract\<close>, interpreted on both.
  \<^item> Services: the gRPC handlers, lost requests and replies, the gateway's retry loop, publishing.
  \<^item> Gateway (cmd/server/main.go): the state of the gateway and its services as one record; the goroutine
    of a connection as a session, whose constructor says where in \<open>handleConn\<close> it waits (\<open>AuthMenu\<close> to
    \<open>RefreshPrompt\<close> in \<open>runAuthLoop\<close>, \<open>Authenticated\<close> and \<open>Present\<close> between the loops, \<open>InRoom\<close> in
    \<open>runCommandLoop\<close>); what it does with one frame is one function, every command included.
  \<^item> System: all connections interleaved, with the network, the presence subscriber and the cleanup worker,
    as the step relation \<open>sys_step\<close>; Sessions: the protocol of a session; Commands: the commands end to end;
    PresenceFeed: the list of online users behind NATS;
    RoomIds: the identity of rooms across database, messaging service and router; SecondSession: two sessions
    of one account.
  \<^item> Client (cmd/client): handshake, silent re-authentication, reconnecting, the session loop; EndToEnd: the
    client against the gateway.
  \<^item> Startup: the \<open>main\<close> functions up to serving, internal/db and the connection to NATS.

  \<^bold>\<open>What the lemmas show.\<close> Protocol: framing round-trips, exactly the encodings are accepted, and what
  failing or interleaved writes leave on the wire. Rate limiters: exact admission for the sliding
  window; bounds, rate, burst and recovery for the token bucket, rounding included; isolation of keys.
  Stores: registry, presence and rooms refine sets and last-event functions; broadcasts reach every
  member once. Repositories: round trips, histories of
  calls against references, exact cleanup. Auth: login soundness, registration, single use of refresh tokens, equivalence of the two
  implementations. Services: the retry loop and its interplay with refresh. System: in every reachable
  state, after a panic too, sessions belong to accounts and the stores refer to live sessions only; sessions follow their
  protocol and are never stuck; a chat message arrives once per member and comes first in the history;
  the online list follows the sessions until a panic, which leaves it as it is; rooms have one identity
  in all stores; a second session of an account is cut off when the first ends. Client: the login dialogue succeeds as intended, reconnecting
  makes its six attempts unless a silent server blocks it, and silent re-authentication after a login never works. Startup: when the gateway serves.

  \<^bold>\<open>Bounds.\<close> No definition takes fuel. Loops are structural recursions or folds, except the field
  splitter, the receive loop, the eviction loop, the retry loop, the client's two authentication loops
  (each prompt read shortens the input) and its reconnection (six attempts), which have a termination
  measure, and \<open>drainInput\<close>, which may not return and is an option. Where the client waits for a server or a user that does nothing,
  the outcome is \<open>Blocked\<close>. The frame length is a 32-bit word and
  the retention a 64-bit word; other Go integers are counters that cannot reach their bounds here and are
  unbounded.

  \<^bold>\<open>Granularity.\<close> A session's handler of one frame is one step of the system: inside it, calls to different
  stores are not interleaved with other sessions. The races that matter are stated where they occur: two
  registrations (Auth), two writers of one connection (Protocol), and the gap between authentication and
  presence, which is two steps. A blocked remote call and its retries are part of the step. A panic ends the step
  there: what it did outside the process stays, the process with all its sessions is gone (\<open>crash\<close>).

  \<^bold>\<open>Not modelled.\<close> The SQL of the schema as a program, logging, flags and the dotenv file, deadlines other than
  as the error a read returns, and code outside the repository: the drivers, gRPC and its generated code,
  of which only the documented nil response of a failed call is used, NATS, bcrypt and JWT. The token-bucket
  and limiter clocks are assumed monotone, as Go's are.
\<close>

end
